theory Spec2Isabelle
  imports Complex_Main "HOL-Library.AList" "HOL-Library.Multiset"
begin

section \<open>Python values and exceptions\<close>

text \<open>
  The values that flow through the annotation client are what \<^verbatim>\<open>response.json()\<close>
  can produce (JSON decoded by Python) and what a variant dictionary holds. A Python
  \<^verbatim>\<open>dict\<close> with string keys is an association list in insertion order, looked up with
  \<open>map_of\<close>; Python floats are only passed through by this program, never computed
  on, and are represented by the rational number their literal denotes.
\<close>

datatype pyval =
    PNone
  | PBool bool
  | PInt int
  | PFloat rat
  | PStr string
  | PList "pyval list"
  | PDict "(string \<times> pyval) list"

type_synonym pydict = "(string \<times> pyval) list"

text \<open>The exceptions that the modelled code can raise or let through.\<close>

datatype exn =
    KeyError
  | IndexError
  | TypeError
  | AttributeError
  | ValueError
  | IOError
  | OtherError

text \<open>
  Sequencing of computations that may raise: the first exception wins, as in Python's
  left-to-right evaluation.
\<close>

definition and_then :: "exn + 'a \<Rightarrow> ('a \<Rightarrow> exn + 'b) \<Rightarrow> exn + 'b" where
  "and_then r f = (case r of Inl e \<Rightarrow> Inl e | Inr x \<Rightarrow> f x)"

text \<open>
  Python sequence indexing \<^verbatim>\<open>xs[i]\<close>: a negative index counts from the end, an index
  out of range raises \<^verbatim>\<open>IndexError\<close>.
\<close>

definition seq_index :: "'a list \<Rightarrow> int \<Rightarrow> exn + 'a" where
  "seq_index xs i =
     (if 0 \<le> i \<and> i < int (length xs) then Inr (xs ! nat i)
      else if i < 0 \<and> - int (length xs) \<le> i then Inr (xs ! nat (int (length xs) + i))
      else Inl IndexError)"

text \<open>
  The values Python accepts as a sequence index: \<^verbatim>\<open>int\<close> and its subclass
  \<^verbatim>\<open>bool\<close>.
\<close>

fun as_index :: "pyval \<Rightarrow> int option" where
  "as_index (PInt i) = Some i"
| "as_index (PBool b) = Some (if b then 1 else 0)"
| "as_index _ = None"

text \<open>
  The subscription \<^verbatim>\<open>container[key]\<close>.
  \<^item> A \<^verbatim>\<open>dict\<close> decoded from JSON has string keys only: a string key is looked up
    (\<^verbatim>\<open>KeyError\<close> when absent), any other hashable key is absent, an unhashable key
    (\<^verbatim>\<open>list\<close>, \<^verbatim>\<open>dict\<close>) raises \<^verbatim>\<open>TypeError\<close>.
  \<^item> A \<^verbatim>\<open>list\<close> and a \<^verbatim>\<open>str\<close> take an integer index and raise \<^verbatim>\<open>TypeError\<close> for any
    other key; indexing a \<^verbatim>\<open>str\<close> gives a one-character \<^verbatim>\<open>str\<close>.
  \<^item> \<^verbatim>\<open>None\<close>, \<^verbatim>\<open>bool\<close>, \<^verbatim>\<open>int\<close> and \<^verbatim>\<open>float\<close> are not subscriptable: \<^verbatim>\<open>TypeError\<close>.
\<close>

fun getitem :: "pyval \<Rightarrow> pyval \<Rightarrow> exn + pyval" where
  "getitem (PDict d) (PStr k) = (case map_of d k of Some v \<Rightarrow> Inr v | None \<Rightarrow> Inl KeyError)"
| "getitem (PDict d) (PList ks) = Inl TypeError"
| "getitem (PDict d) (PDict ks) = Inl TypeError"
| "getitem (PDict d) k = Inl KeyError"
| "getitem (PList xs) k =
     (case as_index k of Some i \<Rightarrow> seq_index xs i | None \<Rightarrow> Inl TypeError)"
| "getitem (PStr s) k =
     (case as_index k of
        Some i \<Rightarrow> and_then (seq_index s i) (\<lambda>c. Inr (PStr [c]))
      | None \<Rightarrow> Inl TypeError)"
| "getitem v k = Inl TypeError"

text \<open>
  The method call \<^verbatim>\<open>obj.get(key)\<close>: on a \<^verbatim>\<open>dict\<close> the value or \<^verbatim>\<open>None\<close>; no other
  JSON value has a \<^verbatim>\<open>get\<close> attribute.
\<close>

fun py_get :: "pyval \<Rightarrow> string \<Rightarrow> exn + pyval" where
  "py_get (PDict d) k = Inr (case map_of d k of Some v \<Rightarrow> v | None \<Rightarrow> PNone)"
| "py_get v k = Inl AttributeError"

text \<open>
  \<^verbatim>\<open>d.update(other)\<close> assigns the items of \<open>other\<close> in order; an assignment replaces
  the value of a key that is present, in place, and appends a key that is not.
\<close>

definition dict_update :: "pydict \<Rightarrow> pydict \<Rightarrow> pydict" where
  "dict_update d other = fold (\<lambda>kv. AList.update (fst kv) (snd kv)) other d"

section \<open>The client and its rate limiter\<close>

text \<open>
  The fields of \<^verbatim>\<open>EnsemblApiClient\<close>; the ceiling is an integer, as \<^verbatim>\<open>__init__\<close> declares
  its argument. The \<^verbatim>\<open>asyncio.Lock\<close> has no field here: the body of
  \<^verbatim>\<open>_apply_rate_limit\<close> runs under the lock, its \<^verbatim>\<open>sleep\<close> included, so calls of it
  never interleave and each is one atomic step on the state.
\<close>

record client =
  server :: string
  reqs_per_sec :: int
  req_count :: int
  last_req :: rat

definition init_client :: "string \<Rightarrow> int \<Rightarrow> client" where
  "init_client srv rps =
     \<lparr>server = srv, reqs_per_sec = rps, req_count = 0, last_req = 0\<rparr>"

definition default_client :: client where
  "default_client = init_client ''https://grch37.rest.ensembl.org'' 10"

text \<open>
  The world a call runs in: the client object, the clock that \<^verbatim>\<open>time.time()\<close> reads
  (seconds), and a log of what happened, kept only to state properties: a call of
  \<^verbatim>\<open>_apply_rate_limit\<close> returning (the request is admitted), a request being sent, and
  a suspension in \<^verbatim>\<open>asyncio.sleep\<close>.
\<close>

datatype event =
    Admitted rat
  | Sent rat string
  | Slept rat rat

record world =
  api :: client
  clock :: rat
  trace :: "event list"

definition start_world :: "client \<Rightarrow> rat \<Rightarrow> world" where
  "start_world c t = \<lparr>api = c, clock = t, trace = []\<rparr>"

text \<open>
  \<^verbatim>\<open>asyncio.sleep(d)\<close> suspends the caller for \<open>d\<close> seconds; a delay that is not
  positive returns at once. The clock of the model moves in \<open>sleep\<close> and in \<open>elapse\<close>
  only: the time a request spends on the network is not counted, so the time between two
  events of one call is a lower bound of the real one.
\<close>

definition sleep :: "rat \<Rightarrow> world \<Rightarrow> world" where
  "sleep d w = w\<lparr>clock := clock w + max 0 d, trace := trace w @ [Slept (clock w) d]\<rparr>"

text \<open>Time that passes outside the client (scheduling, network).\<close>

definition elapse :: "rat \<Rightarrow> world \<Rightarrow> world" where
  "elapse d w = w\<lparr>clock := clock w + d\<rparr>"

text \<open>\<^verbatim>\<open>_apply_rate_limit\<close>, lines 88 to 95.\<close>

definition apply_rate_limit :: "world \<Rightarrow> world" where
  "apply_rate_limit w =
     (let w1 =
        (if reqs_per_sec (api w) \<le> req_count (api w) then
           (let delta = clock w - last_req (api w);
                ws = (if delta < 1 then sleep (1 - delta) w else w)
            in ws\<lparr>api := (api ws)\<lparr>last_req := clock ws, req_count := 0\<rparr>\<rparr>)
         else w);
          w2 = w1\<lparr>api := (api w1)\<lparr>req_count := req_count (api w1) + 1\<rparr>\<rparr>
      in w2\<lparr>trace := trace w2 @ [Admitted (clock w2)]\<rparr>)"

text \<open>
  A burst of concurrent calls of \<^verbatim>\<open>_apply_rate_limit\<close>: the lock serialises them, and
  before each call takes the lock some time (possibly none) has passed since the
  previous one released it.
\<close>

fun admit_calls :: "rat list \<Rightarrow> world \<Rightarrow> world" where
  "admit_calls [] w = w"
| "admit_calls (g # gs) w = admit_calls gs (apply_rate_limit (elapse g w))"

fun admitted_times :: "event list \<Rightarrow> rat list" where
  "admitted_times [] = []"
| "admitted_times (Admitted t # es) = t # admitted_times es"
| "admitted_times (e # es) = admitted_times es"

text \<open>The number of calls admitted in the trailing one-second interval that ends at \<open>t\<close>.\<close>

definition admitted_in_last_second :: "rat \<Rightarrow> world \<Rightarrow> nat" where
  "admitted_in_last_second t w =
     length (filter (\<lambda>a. t - 1 < a \<and> a \<le> t) (admitted_times (trace w)))"

text \<open>
  What the counting of \<^verbatim>\<open>_apply_rate_limit\<close> maintains. The admitted calls fall into the
  calls counted since the last reset (\<open>current\<close>, as many as \<^verbatim>\<open>req_count\<close>), the calls
  counted before that reset (\<open>previous\<close>, at most the ceiling, none later than the reset),
  and the older ones, all admitted at least a second before the last reset.
\<close>

definition window_invariant :: "world \<Rightarrow> bool" where
  "window_invariant w =
     (1 \<le> reqs_per_sec (api w)
      \<and> 0 \<le> req_count (api w) \<and> req_count (api w) \<le> reqs_per_sec (api w)
      \<and> last_req (api w) \<le> clock w
      \<and> (\<forall>a \<in> set (admitted_times (trace w)). a \<le> clock w)
      \<and> (\<exists>older previous current.
            admitted_times (trace w) = older @ previous @ current
            \<and> int (length current) = req_count (api w)
            \<and> int (length previous) \<le> reqs_per_sec (api w)
            \<and> (\<forall>a \<in> set older. a \<le> last_req (api w) - 1)
            \<and> (\<forall>a \<in> set previous. a \<le> last_req (api w)))
      \<and> (\<forall>t. int (admitted_in_last_second t w) \<le> 2 * reqs_per_sec (api w)))"

section \<open>Calling the remote service\<close>

text \<open>
  Three Python library functions are used by the client and are not part of this
  program; the model takes them as parameters: \<^verbatim>\<open>str\<close> as the f-string of the endpoint
  applies it, \<^verbatim>\<open>float\<close> (\<open>None\<close> when it raises \<^verbatim>\<open>ValueError\<close>), and
  \<^verbatim>\<open>urllib.parse.urlencode\<close>. Durations are finite numbers: the values \<^verbatim>\<open>inf\<close> and
  \<^verbatim>\<open>nan\<close>, which \<^verbatim>\<open>float\<close> also reads, have no counterpart here, and what the client does
  with them is outside the model.
\<close>

record pylib =
  py_str :: "pyval \<Rightarrow> string"
  py_float :: "string \<Rightarrow> rat option"
  urlencode :: "pydict \<Rightarrow> string"

text \<open>
  What one \<^verbatim>\<open>session.get\<close> meets. Either the request fails below HTTP (connection
  refused, reset, timeout: an exception that is not a \<^verbatim>\<open>ClientResponseError\<close>), or a
  response arrives with a status, possibly a \<^verbatim>\<open>Retry-After\<close> header, and a body;
  the body is given as what \<^verbatim>\<open>response.json()\<close> decodes it to, \<open>None\<close> when decoding
  raises (wrong content type, not JSON).
\<close>

datatype reply =
    NoConnection
  | Reply nat "string option" "pyval option"

definition request_url :: "pylib \<Rightarrow> string \<Rightarrow> string \<Rightarrow> pydict option \<Rightarrow> string" where
  "request_url lib srv endpoint params =
     (case params of
        None \<Rightarrow> srv @ endpoint
      | Some ps \<Rightarrow> if ps = [] then srv @ endpoint else srv @ endpoint @ ''?'' @ urlencode lib ps)"

definition send_request :: "string \<Rightarrow> world \<Rightarrow> world" where
  "send_request url w = w\<lparr>trace := trace w @ [Sent (clock w) url]\<rparr>"

text \<open>
  \<^verbatim>\<open>perform_rest_action\<close>. The list holds the replies of the server to the successive
  requests of this call, in order. Every request first passes \<^verbatim>\<open>_apply_rate_limit\<close>.
  The result is \<open>None\<close> when the call has not returned on the replies given (it is
  still waiting for an answer), \<open>Some (Inl e)\<close> when it raises \<open>e\<close>, and
  \<open>Some (Inr v)\<close> when it returns \<open>v\<close>; \<open>PDict []\<close> is the empty dict of line 81.
  Logging is not modelled.
\<close>

fun perform_rest_action ::
  "pylib \<Rightarrow> string \<Rightarrow> pydict option \<Rightarrow> reply list \<Rightarrow> world \<Rightarrow> (exn + pyval) option \<times> world"
where
  "perform_rest_action lib endpoint params [] w =
     (None, send_request (request_url lib (server (api w)) endpoint params) (apply_rate_limit w))"
| "perform_rest_action lib endpoint params (NoConnection # rs) w =
     (Some (Inr (PDict [])),
      send_request (request_url lib (server (api w)) endpoint params) (apply_rate_limit w))"
| "perform_rest_action lib endpoint params (Reply status retry body # rs) w =
     (let w1 = send_request (request_url lib (server (api w)) endpoint params) (apply_rate_limit w)
      in if 400 \<le> status then
           (if status = 429 then
              (case retry of
                 Some ra \<Rightarrow>
                   (case py_float lib ra of
                      None \<Rightarrow> (Some (Inl ValueError), w1)
                    | Some d \<Rightarrow> perform_rest_action lib endpoint params rs (sleep d w1))
               | None \<Rightarrow> (Some (Inr (PDict [])), w1))
            else (Some (Inr (PDict [])), w1))
         else
           (case body of
              None \<Rightarrow> (Some (Inr (PDict [])), w1)
            | Some j \<Rightarrow>
                (case getitem j (PInt 0) of
                   Inl e \<Rightarrow> (Some (Inr (PDict [])), w1)
                 | Inr v \<Rightarrow> (Some (Inr v), w1))))"

text \<open>
  The replies that make \<^verbatim>\<open>perform_rest_action\<close> wait and ask again: status 429 with a
  \<^verbatim>\<open>Retry-After\<close> header that \<^verbatim>\<open>float\<close> accepts. There is no bound on their number.
\<close>

fun throttled :: "pylib \<Rightarrow> reply \<Rightarrow> bool" where
  "throttled lib NoConnection = False"
| "throttled lib (Reply status retry body) =
     (status = 429 \<and> (case retry of None \<Rightarrow> False | Some ra \<Rightarrow> py_float lib ra \<noteq> None))"

section \<open>Annotating one variant\<close>

definition annotation_fields :: "string list" where
  "annotation_fields =
     [''gene_id'', ''gene_symbol'', ''biotype'', ''impact'',
      ''most_severe_consequence'', ''minor_allele_frequency'']"

text \<open>\<^verbatim>\<open>except (IndexError, KeyError)\<close>: these two are absorbed, any other exception passes.\<close>

fun except_lookup :: "exn + pyval \<Rightarrow> pyval \<Rightarrow> exn + pyval" where
  "except_lookup (Inl IndexError) dflt = Inr dflt"
| "except_lookup (Inl KeyError) dflt = Inr dflt"
| "except_lookup r dflt = r"

text \<open>Line 120: \<^verbatim>\<open>vep_info["transcript_consequences"][0]\<close>, with \<^verbatim>\<open>{}\<close> kept on a caught error.\<close>

definition extract_consequences :: "pyval \<Rightarrow> exn + pyval" where
  "extract_consequences vep_info =
     except_lookup
       (and_then (getitem vep_info (PStr ''transcript_consequences''))
          (\<lambda>tcs. getitem tcs (PInt 0)))
       (PDict [])"

text \<open>
  Line 127: \<^verbatim>\<open>vep_info["colocated_variants"][-1]["frequencies"][variant["alt"]]["af"]\<close>,
  evaluated left to right (the key \<^verbatim>\<open>variant["alt"]\<close> after the object it indexes),
  with \<^verbatim>\<open>None\<close> kept on a caught error.
\<close>

definition extract_maf :: "pydict \<Rightarrow> pyval \<Rightarrow> exn + pyval" where
  "extract_maf variant vep_info =
     except_lookup
       (and_then (getitem vep_info (PStr ''colocated_variants'')) (\<lambda>cvs.
        and_then (getitem cvs (PInt (- 1))) (\<lambda>cv.
        and_then (getitem cv (PStr ''frequencies'')) (\<lambda>freqs.
        and_then (getitem (PDict variant) (PStr ''alt'')) (\<lambda>alt.
        and_then (getitem freqs alt) (\<lambda>freq.
        getitem freq (PStr ''af'')))))))
       PNone"

text \<open>
  Lines 117 to 139: the dictionary passed to \<^verbatim>\<open>variant.update\<close>. Its six values are
  evaluated in order, each \<^verbatim>\<open>.get\<close> raising \<^verbatim>\<open>AttributeError\<close> on a value that is
  not a \<^verbatim>\<open>dict\<close>.
\<close>

definition extracted_fields :: "pydict \<Rightarrow> pyval \<Rightarrow> exn + pydict" where
  "extracted_fields variant vep_info =
     and_then (extract_consequences vep_info) (\<lambda>transcript_consequences.
     and_then (extract_maf variant vep_info) (\<lambda>maf.
     and_then (py_get transcript_consequences ''gene_id'') (\<lambda>gene_id.
     and_then (py_get transcript_consequences ''gene_symbol'') (\<lambda>gene_symbol.
     and_then (py_get transcript_consequences ''biotype'') (\<lambda>biotype.
     and_then (py_get transcript_consequences ''impact'') (\<lambda>impact.
     and_then (py_get vep_info ''most_severe_consequence'') (\<lambda>most_severe.
     Inr [(''gene_id'', gene_id),
          (''gene_symbol'', gene_symbol),
          (''biotype'', biotype),
          (''impact'', impact),
          (''most_severe_consequence'', most_severe),
          (''minor_allele_frequency'', maf)])))))))"

text \<open>Lines 117 to 141: the extraction, then the \<^verbatim>\<open>variant.update\<close> and the return.\<close>

definition merge_annotation :: "pydict \<Rightarrow> pyval \<Rightarrow> exn + pydict" where
  "merge_annotation variant vep_info =
     and_then (extracted_fields variant vep_info) (\<lambda>annotation. Inr (dict_update variant annotation))"

text \<open>
  \<^verbatim>\<open>update_variant_info\<close>: the endpoint is built from \<^verbatim>\<open>variant['hgvs']\<close> (a
  \<^verbatim>\<open>KeyError\<close> when the record has no such field), the query is \<^verbatim>\<open>{"pick": 1}\<close>.
\<close>

definition update_variant_info ::
  "pylib \<Rightarrow> pydict \<Rightarrow> reply list \<Rightarrow> world \<Rightarrow> (exn + pydict) option \<times> world"
where
  "update_variant_info lib variant replies w =
     (case getitem (PDict variant) (PStr ''hgvs'') of
        Inl e \<Rightarrow> (Some (Inl e), w)
      | Inr h \<Rightarrow>
          (case perform_rest_action lib (''/vep/human/hgvs/'' @ py_str lib h)
                  (Some [(''pick'', PInt 1)]) replies w of
             (None, w') \<Rightarrow> (None, w')
           | (Some (Inl e), w') \<Rightarrow> (Some (Inl e), w')
           | (Some (Inr vep_info), w') \<Rightarrow> (Some (merge_annotation variant vep_info), w')))"

section \<open>The orchestrator\<close>

text \<open>
  \<^verbatim>\<open>process_variants\<close> creates one \<^verbatim>\<open>update_variant_info\<close> task per record of the
  reader, all on one fresh default client, and appends the results as
  \<^verbatim>\<open>asyncio.as_completed\<close> hands them over. The tasks share only the rate limiter and
  the clock, which decide when a task finishes, not what it returns; so the model runs
  task \<open>i\<close> on its record and on the replies \<open>replies i\<close> the server gives to its
  requests, and takes the order in which the tasks finish as the parameter \<open>order\<close>
  (task numbers, the first to finish first). That the world a call runs in has no part in
  its result is lemma \<open>update_variant_info_result_any_world\<close>.
\<close>

definition task_outcome ::
  "pylib \<Rightarrow> pydict list \<Rightarrow> (nat \<Rightarrow> reply list) \<Rightarrow> rat \<Rightarrow> nat \<Rightarrow> (exn + pydict) option"
where
  "task_outcome lib variants replies t0 i =
     fst (update_variant_info lib (variants ! i) (replies i) (start_world default_client t0))"

text \<open>
  The loop of lines 68 to 71 over the tasks that finish: \<^verbatim>\<open>await future\<close> re-raises
  the exception of a task that raised, which ends \<^verbatim>\<open>process_variants\<close>.
\<close>

fun gather :: "(exn + pydict) list \<Rightarrow> pydict list \<Rightarrow> exn + pydict list" where
  "gather [] annotated_variants = Inr annotated_variants"
| "gather (Inl e # futures) annotated_variants = Inl e"
| "gather (Inr result # futures) annotated_variants =
     gather futures (annotated_variants @ [result])"

fun finished :: "'a option list \<Rightarrow> 'a list" where
  "finished [] = []"
| "finished (None # rs) = finished rs"
| "finished (Some r # rs) = r # finished rs"

text \<open>
  A task that never finishes is never handed over: the loop consumes the finished
  tasks and then waits forever (\<open>None\<close>), unless one of them raised before.
\<close>

definition process_variants ::
  "pylib \<Rightarrow> pydict list \<Rightarrow> (nat \<Rightarrow> reply list) \<Rightarrow> nat list \<Rightarrow> rat \<Rightarrow> (exn + pydict list) option"
where
  "process_variants lib variants replies order t0 =
     (let outcomes = map (task_outcome lib variants replies t0) order
      in case gather (finished outcomes) [] of
           Inl e \<Rightarrow> Some (Inl e)
         | Inr annotated_variants \<Rightarrow>
             if None \<in> set outcomes then None else Some (Inr annotated_variants))"

section \<open>The report sink and the program\<close>

text \<open>
  The output side: which paths can be opened for writing, and the table each file
  holds (header and rows of cells). Formatting of cells as text is not modelled.
\<close>

record disk =
  writable :: "string \<Rightarrow> bool"
  files :: "string \<Rightarrow> (string list \<times> pyval list list) option"

text \<open>
  \<^verbatim>\<open>csv.DictWriter\<close> with its defaults: a row with a key outside the field names raises
  \<^verbatim>\<open>ValueError\<close>, a missing key is written as the empty string. \<^verbatim>\<open>writerows\<close> writes
  the rows before the one that raises.
\<close>

definition dict_to_list :: "string list \<Rightarrow> pydict \<Rightarrow> exn + pyval list" where
  "dict_to_list fieldnames row =
     (if set (map fst row) \<subseteq> set fieldnames
      then Inr (map (\<lambda>k. case map_of row k of Some v \<Rightarrow> v | None \<Rightarrow> PStr []) fieldnames)
      else Inl ValueError)"

fun writerows :: "string list \<Rightarrow> pydict list \<Rightarrow> pyval list list \<Rightarrow> exn option \<times> pyval list list" where
  "writerows fieldnames [] written = (None, written)"
| "writerows fieldnames (row # rows) written =
     (case dict_to_list fieldnames row of
        Inl e \<Rightarrow> (Some e, written)
      | Inr cells \<Rightarrow> writerows fieldnames rows (written @ [cells]))"

text \<open>\<^verbatim>\<open>write_to_tsv\<close>: the exception raised, if any, and the disk afterwards.\<close>

definition write_to_tsv :: "pydict list \<Rightarrow> string \<Rightarrow> disk \<Rightarrow> exn option \<times> disk" where
  "write_to_tsv annotated_variants output_tsv fs =
     (if annotated_variants = [] then (None, fs)
      else
        (let fieldnames = map fst (hd annotated_variants)
         in if \<not> writable fs output_tsv then (Some IOError, fs)
            else
              (case writerows fieldnames annotated_variants [] of
                 (err, rows) \<Rightarrow>
                   (err, fs\<lparr>files := (files fs)(output_tsv := Some (fieldnames, rows))\<rparr>))))"

text \<open>
  \<^verbatim>\<open>main\<close>, after the arguments are parsed. \<open>source\<close> is what the reader yields: the
  records, or the exception raised on opening or reading the input. The result is the
  exit status and the disk; \<open>None\<close> when the program does not end.
\<close>

definition main ::
  "pylib \<Rightarrow> exn + pydict list \<Rightarrow> (nat \<Rightarrow> reply list) \<Rightarrow> nat list \<Rightarrow> rat \<Rightarrow> string \<Rightarrow> disk
     \<Rightarrow> (nat \<times> disk) option"
where
  "main lib source replies order t0 output_tsv fs =
     (case source of
        Inl e \<Rightarrow> Some (1, fs)
      | Inr variants \<Rightarrow>
          (case process_variants lib variants replies order t0 of
             None \<Rightarrow> None
           | Some (Inl e) \<Rightarrow> Some (1, fs)
           | Some (Inr annotated_variants) \<Rightarrow>
               (case write_to_tsv annotated_variants output_tsv fs of
                  (None, fs') \<Rightarrow> Some (0, fs')
                | (Some e, fs') \<Rightarrow> Some (1, fs'))))"

section \<open>The interface of the remote service, and the extraction as specified\<close>

text \<open>
  The response object as the specification documents it (section 6): an object in which
  \<^verbatim>\<open>transcript_consequences\<close>, when present, is an array of objects, and
  \<^verbatim>\<open>colocated_variants\<close>, when present, is an array of objects whose \<^verbatim>\<open>frequencies\<close>,
  when present, maps alleles to objects. Every part is optional and every array may be
  empty.
\<close>

fun is_object :: "pyval \<Rightarrow> bool" where
  "is_object (PDict d) = True"
| "is_object v = False"

fun frequencies_shape :: "pyval \<Rightarrow> bool" where
  "frequencies_shape (PDict f) = list_all (\<lambda>kv. is_object (snd kv)) f"
| "frequencies_shape v = False"

fun colocated_shape :: "pyval \<Rightarrow> bool" where
  "colocated_shape (PDict cv) =
     (case map_of cv ''frequencies'' of None \<Rightarrow> True | Some f \<Rightarrow> frequencies_shape f)"
| "colocated_shape v = False"

fun array_of :: "(pyval \<Rightarrow> bool) \<Rightarrow> pyval option \<Rightarrow> bool" where
  "array_of shape None = True"
| "array_of shape (Some (PList xs)) = list_all shape xs"
| "array_of shape (Some v) = False"

definition response_object :: "pydict \<Rightarrow> bool" where
  "response_object d =
     (array_of is_object (map_of d ''transcript_consequences'') \<and>
      array_of colocated_shape (map_of d ''colocated_variants''))"

text \<open>
  The extraction as the specification words it (section 4.2, step 4): a path into the
  response gives a value when every step of it is present, and the field is null
  otherwise.
\<close>

fun member_of :: "string \<Rightarrow> pyval option \<Rightarrow> pyval option" where
  "member_of k (Some (PDict d)) = map_of d k"
| "member_of k v = None"

fun first_of :: "pyval option \<Rightarrow> pyval option" where
  "first_of (Some (PList (x # xs))) = Some x"
| "first_of v = None"

fun last_of :: "pyval option \<Rightarrow> pyval option" where
  "last_of (Some (PList (x # xs))) = Some (last (x # xs))"
| "last_of v = None"

fun or_null :: "pyval option \<Rightarrow> pyval" where
  "or_null (Some v) = v"
| "or_null None = PNone"

definition spec_annotation :: "pydict \<Rightarrow> string \<Rightarrow> pydict" where
  "spec_annotation response alt =
     (let consequence = first_of (map_of response ''transcript_consequences'');
          colocated = last_of (map_of response ''colocated_variants'')
      in [(''gene_id'', or_null (member_of ''gene_id'' consequence)),
          (''gene_symbol'', or_null (member_of ''gene_symbol'' consequence)),
          (''biotype'', or_null (member_of ''biotype'' consequence)),
          (''impact'', or_null (member_of ''impact'' consequence)),
          (''most_severe_consequence'', or_null (map_of response ''most_severe_consequence'')),
          (''minor_allele_frequency'',
             or_null (member_of ''af'' (member_of alt (member_of ''frequencies'' colocated))))])"

text \<open>The annotation of a record for which the service gave no data.\<close>

definition null_annotation :: pydict where
  "null_annotation = map (\<lambda>k. (k, PNone)) annotation_fields"

text \<open>
  The identifying fields of a record, and the outcome of a call as a finite map (two
  dictionaries are the same record when they map the same keys to the same values).
\<close>

definition identity_of :: "pydict \<Rightarrow> pyval option \<times> pyval option \<times> pyval option \<times> pyval option" where
  "identity_of v = (map_of v ''chrom'', map_of v ''pos'', map_of v ''ref'', map_of v ''alt'')"

definition as_mapping :: "(exn + pydict) option \<Rightarrow> (exn + (string \<Rightarrow> pyval option)) option" where
  "as_mapping r = map_option (map_sum id map_of) r"

fun sent_requests :: "event list \<Rightarrow> (rat \<times> string) list" where
  "sent_requests [] = []"
| "sent_requests (Sent t url # es) = (t, url) # sent_requests es"
| "sent_requests (e # es) = sent_requests es"

section \<open>The scenarios of the specification\<close>

text \<open>
  The library functions at the arguments the scenarios use: \<^verbatim>\<open>str\<close> of a string is the
  string, \<^verbatim>\<open>float\<close> reads a decimal integer of one digit and rejects the other strings
  used here, \<^verbatim>\<open>urlencode({"pick": 1})\<close> is \<^verbatim>\<open>pick=1\<close>.
\<close>

definition scenario_lib :: pylib where
  "scenario_lib =
     \<lparr>py_str = (\<lambda>v. case v of PStr s \<Rightarrow> s | _ \<Rightarrow> []),
      py_float = (\<lambda>s. if s = ''1'' then Some 1 else if s = ''2'' then Some 2 else None),
      urlencode = (\<lambda>ps. ''pick=1'')\<rparr>"

text \<open>Scenario A: the record the reader yields for \<^verbatim>\<open>1:g.100A>T\<close>, and the response.\<close>

definition record_a :: pydict where
  "record_a =
     [(''chrom'', PStr ''1''), (''pos'', PInt 100), (''ref'', PStr ''A''), (''alt'', PStr ''T''),
      (''hgvs'', PStr ''1:g.100A>T'')]"

definition response_a :: pydict where
  "response_a =
     [(''transcript_consequences'',
         PList [PDict [(''gene_id'', PStr ''G1''), (''gene_symbol'', PStr ''GENE1''),
                       (''biotype'', PStr ''protein_coding''), (''impact'', PStr ''MODERATE'')]]),
      (''most_severe_consequence'', PStr ''missense_variant''),
      (''colocated_variants'',
         PList [PDict [(''frequencies'', PDict [(''T'', PDict [(''af'', PFloat (5 / 100))])])]])]"

text \<open>Scenario B: the record for \<^verbatim>\<open>1:g.200C>G\<close>.\<close>

definition record_b :: pydict where
  "record_b =
     [(''chrom'', PStr ''1''), (''pos'', PInt 200), (''ref'', PStr ''C''), (''alt'', PStr ''G''),
      (''hgvs'', PStr ''1:g.200C>G'')]"

text \<open>
  A later response for the record of scenario A: another gene, no biotype, no impact and no
  colocated variants.
\<close>

definition response_later :: pydict where
  "response_later =
     [(''transcript_consequences'',
         PList [PDict [(''gene_id'', PStr ''G2''), (''gene_symbol'', PStr ''GENE2'')]]),
      (''most_severe_consequence'', PStr ''intron_variant'')]"

definition empty_disk :: disk where
  "empty_disk = \<lparr>writable = (\<lambda>p. True), files = (\<lambda>p. None)\<rparr>"

text \<open>The record of scenario A after its annotation.\<close>

definition annotated_a :: pydict where
  "annotated_a =
     record_a @
     [(''gene_id'', PStr ''G1''), (''gene_symbol'', PStr ''GENE1''),
      (''biotype'', PStr ''protein_coding''), (''impact'', PStr ''MODERATE''),
      (''most_severe_consequence'', PStr ''missense_variant''),
      (''minor_allele_frequency'', PFloat (5 / 100))]"

section \<open>Facts about dictionaries and indexing\<close>

lemma map_of_dict_update:
  "map_of (dict_update d other) = map_of d ++ map_of (rev other)"
  unfolding dict_update_def
proof (induction other arbitrary: d)
  case Nil
  show ?case by simp
next
  case (Cons kv other)
  have "map_of (AList.update (fst kv) (snd kv) d) ++ map_of (rev other)
          = map_of d ++ (map_of [kv] ++ map_of (rev other))"
    by (cases kv) (auto simp: update_conv' map_add_def fun_eq_iff split: option.splits)
  then show ?case
    by (simp add: Cons.IH)
qed

lemma keys_dict_update:
  "set (map fst (dict_update d other)) = set (map fst d) \<union> set (map fst other)"
  unfolding dict_update_def
  by (induction other arbitrary: d) (auto simp: dom_update image_iff)

lemma distinct_dict_update:
  "distinct (map fst d) \<Longrightarrow> distinct (map fst (dict_update d other))"
  unfolding dict_update_def
  by (induction other arbitrary: d) (auto simp: distinct_update)

lemma key_order_dict_update:
  "set (map fst other) \<subseteq> set (map fst d) \<Longrightarrow> map fst (dict_update d other) = map fst d"
  unfolding dict_update_def
proof (induction other arbitrary: d)
  case Nil
  show ?case by simp
next
  case (Cons kv other)
  have keys: "map fst (AList.update (fst kv) (snd kv) d) = map fst d"
    using Cons.prems by (simp add: update_keys)
  have "map fst (fold (\<lambda>kv. AList.update (fst kv) (snd kv)) other (AList.update (fst kv) (snd kv) d))
          = map fst (AList.update (fst kv) (snd kv) d)"
    using Cons.prems by (intro Cons.IH) (simp add: keys)
  then show ?case
    by (simp add: keys)
qed

lemma dict_update_untouched:
  "k \<notin> set (map fst other) \<Longrightarrow> map_of (dict_update d other) k = map_of d k"
  by (simp add: map_of_dict_update map_add_def map_of_eq_None_iff[THEN iffD2])

lemma seq_index_Nil: "seq_index [] i = Inl IndexError"
  by (simp add: seq_index_def)

lemma seq_index_first: "seq_index (x # xs) 0 = Inr x"
  by (simp add: seq_index_def)

lemma seq_index_last: "seq_index (x # xs) (- 1) = Inr (last (x # xs))"
proof -
  have "(x # xs) ! length xs = last (x # xs)"
    by (metis last_conv_nth length_Cons diff_Suc_1 list.distinct(1))
  then show ?thesis
    by (simp add: seq_index_def)
qed

lemma null_annotation_lookup:
  "map (map_of (dict_update variant null_annotation)) annotation_fields = replicate 6 (Some PNone)"
  by (simp add: map_of_dict_update null_annotation_def annotation_fields_def numeral_eq_Suc)

section \<open>Facts about the extraction\<close>

lemma extracted_fields_keys:
  "extracted_fields variant vep_info = Inr ann \<Longrightarrow> map fst ann = annotation_fields"
  by (auto simp: extracted_fields_def and_then_def annotation_fields_def split: sum.splits)

lemma extracted_fields_alt_only:
  "map_of v1 ''alt'' = map_of v2 ''alt'' \<Longrightarrow> extracted_fields v1 vep_info = extracted_fields v2 vep_info"
  by (simp add: extracted_fields_def extract_maf_def)

lemma extracted_fields_empty:
  "extracted_fields variant (PDict []) = Inr null_annotation"
  by (simp add: extracted_fields_def extract_consequences_def extract_maf_def and_then_def
      null_annotation_def annotation_fields_def)

lemma except_lookup_not_lookup_error:
  "except_lookup r dflt \<noteq> Inl KeyError \<and> except_lookup r dflt \<noteq> Inl IndexError"
  by (cases "(r, dflt)" rule: except_lookup.cases) auto

lemma py_get_not_lookup_error:
  "py_get v k \<noteq> Inl KeyError \<and> py_get v k \<noteq> Inl IndexError"
  by (cases "(v, k)" rule: py_get.cases) auto

lemma extracted_fields_not_lookup_error:
  "extracted_fields variant vep_info \<noteq> Inl KeyError \<and> extracted_fields variant vep_info \<noteq> Inl IndexError"
  using except_lookup_not_lookup_error py_get_not_lookup_error
  by (auto simp: extracted_fields_def extract_consequences_def extract_maf_def and_then_def split: sum.splits)

lemma extract_consequences_object:
  assumes "array_of is_object (map_of d ''transcript_consequences'')"
  shows "extract_consequences (PDict d) =
           Inr (case first_of (map_of d ''transcript_consequences'') of Some t \<Rightarrow> t | None \<Rightarrow> PDict [])"
proof (cases "map_of d ''transcript_consequences''")
  case None
  then show ?thesis by (simp add: extract_consequences_def and_then_def)
next
  case (Some v)
  with assms obtain tcs where v: "v = PList tcs" and all: "list_all is_object tcs"
    by (cases v) auto
  show ?thesis
    using Some v by (cases tcs) (simp_all add: extract_consequences_def and_then_def seq_index_Nil seq_index_first)
qed

lemma first_consequence_is_object:
  assumes "array_of is_object (map_of d ''transcript_consequences'')"
    and "first_of (map_of d ''transcript_consequences'') = Some t"
  shows "is_object t"
proof -
  from assms(2) obtain tcs where "map_of d ''transcript_consequences'' = Some (PList (t # tcs))"
    by (cases "map_of d ''transcript_consequences''" rule: first_of.cases) auto
  with assms(1) show ?thesis by simp
qed

lemma py_get_member:
  "is_object t \<Longrightarrow> py_get t k = Inr (or_null (member_of k (Some t)))"
  by (cases t) (auto split: option.splits)

lemma extract_maf_object:
  assumes shape: "array_of colocated_shape (map_of d ''colocated_variants'')"
    and alt: "map_of variant ''alt'' = Some (PStr a)"
  shows "extract_maf variant (PDict d) =
           Inr (or_null (member_of ''af'' (member_of a (member_of ''frequencies''
                  (last_of (map_of d ''colocated_variants''))))))"
proof (cases "map_of d ''colocated_variants''")
  case None
  then show ?thesis by (simp add: extract_maf_def and_then_def)
next
  case (Some v)
  with shape obtain cvs where v: "v = PList cvs" and all: "list_all colocated_shape cvs"
    by (cases v) auto
  show ?thesis
  proof (cases cvs)
    case Nil
    then show ?thesis
      using Some v by (simp add: extract_maf_def and_then_def seq_index_Nil)
  next
    case (Cons x xs)
    have "last (x # xs) \<in> set cvs"
      using Cons by (metis last_in_set list.distinct(1))
    with all have "colocated_shape (last (x # xs))"
      by (simp add: list_all_iff)
    then obtain cv where cv: "last (x # xs) = PDict cv"
      and freq: "case map_of cv ''frequencies'' of None \<Rightarrow> True | Some f \<Rightarrow> frequencies_shape f"
      by (cases "last (x # xs)") auto
    have step: "and_then (getitem (PDict d) (PStr ''colocated_variants'')) (\<lambda>cvs.
        and_then (getitem cvs (PInt (- 1))) F) = F (PDict cv)" for F :: "pyval \<Rightarrow> exn + pyval"
      using Some v Cons cv by (simp add: and_then_def seq_index_last del: last.simps)
    show ?thesis
    proof (cases "map_of cv ''frequencies''")
      case None
      then show ?thesis
        using Some v Cons cv unfolding extract_maf_def step
        by (simp add: and_then_def del: last.simps)
    next
      case fr: (Some fv)
      with freq obtain f where f: "fv = PDict f" and fall: "list_all (\<lambda>kv. is_object (snd kv)) f"
        by (cases fv) auto
      show ?thesis
      proof (cases "map_of f a")
        case None
        then show ?thesis
          using Some v Cons cv fr f alt unfolding extract_maf_def step
          by (simp add: and_then_def del: last.simps)
      next
        case g: (Some gv)
        then have "(a, gv) \<in> set f" by (rule map_of_SomeD)
        with fall have "is_object gv" by (auto simp: list_all_iff)
        then obtain g' where "gv = PDict g'" by (cases gv) auto
        then show ?thesis
          using Some v Cons cv fr f alt g unfolding extract_maf_def step
          by (simp add: and_then_def del: last.simps split: option.splits)
      qed
    qed
  qed
qed

lemma extracted_fields_response_object:
  assumes "response_object d" and "map_of variant ''alt'' = Some (PStr a)"
  shows "extracted_fields variant (PDict d) = Inr (spec_annotation d a)"
proof -
  have tc: "array_of is_object (map_of d ''transcript_consequences'')"
    and cv: "array_of colocated_shape (map_of d ''colocated_variants'')"
    using assms(1) by (simp_all add: response_object_def)
  show ?thesis
  proof (cases "first_of (map_of d ''transcript_consequences'')")
    case None
    then show ?thesis
      by (simp add: extracted_fields_def extract_consequences_object[OF tc]
          extract_maf_object[OF cv assms(2)] and_then_def spec_annotation_def Let_def
          split: option.splits)
  next
    case (Some t)
    then have "is_object t" by (rule first_consequence_is_object[OF tc])
    then show ?thesis
      using Some
      by (simp add: extracted_fields_def extract_consequences_object[OF tc]
          extract_maf_object[OF cv assms(2)] and_then_def spec_annotation_def Let_def py_get_member
          split: option.splits)
  qed
qed

section \<open>Facts about the log and the requests\<close>

lemma admitted_times_append:
  "admitted_times (es @ fs) = admitted_times es @ admitted_times fs"
  by (induction es rule: admitted_times.induct) simp_all

lemma sent_requests_append:
  "sent_requests (es @ fs) = sent_requests es @ sent_requests fs"
  by (induction es rule: sent_requests.induct) simp_all

lemma apply_rate_limit_server: "server (api (apply_rate_limit w)) = server (api w)"
  by (simp add: apply_rate_limit_def sleep_def Let_def)

lemma apply_rate_limit_clock: "clock w \<le> clock (apply_rate_limit w)"
  by (simp add: apply_rate_limit_def sleep_def Let_def)

lemma apply_rate_limit_admitted:
  "admitted_times (trace (apply_rate_limit w)) =
     admitted_times (trace w) @ [clock (apply_rate_limit w)]"
  by (simp add: apply_rate_limit_def sleep_def Let_def admitted_times_append)

lemma apply_rate_limit_sent:
  "sent_requests (trace (apply_rate_limit w)) = sent_requests (trace w)"
  by (simp add: apply_rate_limit_def sleep_def Let_def sent_requests_append)

lemma apply_rate_limit_count:
  "req_count (api (apply_rate_limit w)) =
     (if reqs_per_sec (api w) \<le> req_count (api w) then 1 else req_count (api w) + 1)"
  by (simp add: apply_rate_limit_def sleep_def Let_def)

lemma perform_rest_action_extends_log:
  "\<exists>more. trace (snd (perform_rest_action lib endpoint params rs w)) = trace w @ more"
proof (induction rs arbitrary: w)
  case Nil
  show ?case
    by (simp add: send_request_def apply_rate_limit_def sleep_def Let_def)
next
  case (Cons r rs)
  have first: "\<exists>more. trace (send_request u (apply_rate_limit w)) = trace w @ more" for u
    by (simp add: send_request_def apply_rate_limit_def sleep_def Let_def)
  show ?case
  proof (cases r)
    case NoConnection
    then show ?thesis using first by simp
  next
    case (Reply status retry body)
    define w1 where "w1 = send_request (request_url lib (server (api w)) endpoint params) (apply_rate_limit w)"
    obtain m1 where m1: "trace w1 = trace w @ m1"
      using first unfolding w1_def by blast
    have again: "\<exists>more. trace (snd (perform_rest_action lib endpoint params rs (sleep d w1))) = trace w @ more" for d
    proof -
      obtain m2 where "trace (snd (perform_rest_action lib endpoint params rs (sleep d w1))) = trace (sleep d w1) @ m2"
        using Cons.IH by blast
      then show ?thesis
        by (simp add: sleep_def m1)
    qed
    show ?thesis
      using Reply again m1 unfolding w1_def
      by (auto simp: Let_def split: option.splits sum.splits)
  qed
qed

lemma perform_rest_action_first_request:
  "\<exists>more. trace (snd (perform_rest_action lib endpoint params rs w)) =
      trace (apply_rate_limit w)
        @ Sent (clock (apply_rate_limit w)) (request_url lib (server (api w)) endpoint params) # more"
proof (cases rs)
  case Nil
  then show ?thesis by (simp add: send_request_def)
next
  case (Cons r rs')
  define w1 where "w1 = send_request (request_url lib (server (api w)) endpoint params) (apply_rate_limit w)"
  have w1: "trace w1 = trace (apply_rate_limit w)
        @ [Sent (clock (apply_rate_limit w)) (request_url lib (server (api w)) endpoint params)]"
    by (simp add: w1_def send_request_def)
  show ?thesis
  proof (cases r)
    case NoConnection
    then show ?thesis using Cons by (simp add: send_request_def)
  next
    case (Reply status retry body)
    have again: "\<exists>more. trace (snd (perform_rest_action lib endpoint params rs' (sleep d w1))) =
        trace (apply_rate_limit w)
        @ Sent (clock (apply_rate_limit w)) (request_url lib (server (api w)) endpoint params) # more" for d
    proof -
      obtain m2 where "trace (snd (perform_rest_action lib endpoint params rs' (sleep d w1))) = trace (sleep d w1) @ m2"
        using perform_rest_action_extends_log by blast
      then show ?thesis
        by (simp add: sleep_def w1)
    qed
    show ?thesis
      using Reply Cons again w1 unfolding w1_def
      by (auto simp: Let_def split: option.splits sum.splits)
  qed
qed

lemma perform_rest_action_result_any_world:
  "fst (perform_rest_action lib endpoint params rs w) =
   fst (perform_rest_action lib endpoint params rs w')"
proof (induction rs arbitrary: w w')
  case Nil
  show ?case by simp
next
  case (Cons r rs)
  show ?case
  proof (cases r)
    case NoConnection
    then show ?thesis by simp
  next
    case (Reply status retry body)
    then show ?thesis
      using Cons.IH by (auto simp: Let_def split: option.splits sum.splits)
  qed
qed

lemma perform_rest_action_raises_only_ValueError:
  "fst (perform_rest_action lib endpoint params rs w) = Some (Inl e) \<Longrightarrow> e = ValueError"
proof (induction rs arbitrary: w)
  case Nil
  then show ?case by simp
next
  case (Cons r rs)
  show ?case
  proof (cases r)
    case NoConnection
    with Cons.prems show ?thesis by simp
  next
    case (Reply status retry body)
    with Cons.prems Cons.IH show ?thesis
      by (auto simp: Let_def split: option.splits sum.splits if_splits)
  qed
qed

lemma update_variant_info_result:
  "fst (update_variant_info lib variant rs w) =
     (case map_of variant ''hgvs'' of
        None \<Rightarrow> Some (Inl KeyError)
      | Some h \<Rightarrow>
          (case fst (perform_rest_action lib (''/vep/human/hgvs/'' @ py_str lib h)
                       (Some [(''pick'', PInt 1)]) rs w) of
             None \<Rightarrow> None
           | Some (Inl e) \<Rightarrow> Some (Inl e)
           | Some (Inr vep_info) \<Rightarrow> Some (merge_annotation variant vep_info)))"
  by (simp add: update_variant_info_def split: option.splits prod.splits sum.splits)

lemma update_variant_info_result_any_world:
  "fst (update_variant_info lib variant rs w) = fst (update_variant_info lib variant rs w')"
  unfolding update_variant_info_result
  by (simp only: perform_rest_action_result_any_world[of lib _ _ rs w w'])

text \<open>
  The call returns when, and only when, the server at some point answers with something other
  than a throttling reply that asks for a delay.
\<close>

lemma perform_rest_action_returns_iff:
  "fst (perform_rest_action lib endpoint params rs w) \<noteq> None \<longleftrightarrow> (\<exists>r \<in> set rs. \<not> throttled lib r)"
proof (induction rs arbitrary: w)
  case Nil
  show ?case by simp
next
  case (Cons r rs)
  show ?case
  proof (cases r)
    case NoConnection
    then show ?thesis by simp
  next
    case (Reply status retry body)
    show ?thesis
    proof (cases "throttled lib r")
      case True
      then obtain ra d where "status = 429" "retry = Some ra" "py_float lib ra = Some d"
        using Reply by (auto split: option.splits)
      then show ?thesis
        using Reply True Cons.IH by (simp add: Let_def)
    next
      case False
      then have "fst (perform_rest_action lib endpoint params (r # rs) w) \<noteq> None"
        using Reply by (auto simp: Let_def split: option.splits sum.splits)
      then show ?thesis
        using False by simp
    qed
  qed
qed

section \<open>Facts about the rate limiter\<close>

text \<open>
  Whatever the arrival times, a limiter that starts fresh never admits more than twice the
  ceiling in a trailing second: the calls of that second belong to the current count and to
  the count before it. The first burst of C1 reaches this bound.
\<close>

lemma admitted_times_snoc:
  "admitted_times (es @ [Admitted a]) = admitted_times es @ [a]"
  by (induction es rule: admitted_times.induct) simp_all

lemma admitted_times_snoc_slept:
  "admitted_times (es @ [Slept a b]) = admitted_times es"
  by (induction es rule: admitted_times.induct) simp_all

lemma window_invariant_step:
  assumes inv: "window_invariant w" and g: "0 \<le> g"
  shows "window_invariant (apply_rate_limit (elapse g w))"
proof -
  define C where "C = reqs_per_sec (api w)"
  define n where "n = req_count (api w)"
  define ts where "ts = admitted_times (trace w)"
  from inv obtain older previous current where
    C1: "1 \<le> C" and n0: "0 \<le> n" and nC: "n \<le> C" and lr: "last_req (api w) \<le> clock w"
    and past: "\<forall>a \<in> set ts. a \<le> clock w"
    and split: "ts = older @ previous @ current"
    and cur: "int (length current) = n" and prev: "int (length previous) \<le> C"
    and old: "\<forall>a \<in> set older. a \<le> last_req (api w) - 1"
    and prv: "\<forall>a \<in> set previous. a \<le> last_req (api w)"
    and win: "\<forall>t. int (admitted_in_last_second t w) \<le> 2 * C"
    unfolding window_invariant_def C_def n_def ts_def by blast
  define w' where "w' = apply_rate_limit (elapse g w)"
  define a where "a = clock w'"
  have ts': "admitted_times (trace w') = ts @ [a]"
    by (simp add: w'_def a_def ts_def apply_rate_limit_def elapse_def sleep_def Let_def
        admitted_times_snoc admitted_times_snoc_slept)
  have C': "reqs_per_sec (api w') = C"
    by (simp add: w'_def C_def apply_rate_limit_def elapse_def sleep_def Let_def)
  have clock_le: "clock w \<le> a"
    using g by (simp add: w'_def a_def apply_rate_limit_def elapse_def sleep_def Let_def)
  have past': "\<forall>x \<in> set (admitted_times (trace w')). x \<le> clock w'"
    using past clock_le by (auto simp: ts' a_def)
  have count: "int (admitted_in_last_second t w') \<le> 2 * C"
    if later: "int (length (filter (\<lambda>x. a - 1 < x) ts)) \<le> 2 * C - 1" for t
  proof (cases "t - 1 < a \<and> a \<le> t")
    case True
    have "length (filter (\<lambda>x. t - 1 < x \<and> x \<le> t) ts) \<le> length (filter (\<lambda>x. a - 1 < x) ts)"
    proof -
      have "filter (\<lambda>x. t - 1 < x \<and> x \<le> t) ts = filter (\<lambda>x. t - 1 < x \<and> x \<le> t) (filter (\<lambda>x. a - 1 < x) ts)"
        using True by (auto intro!: filter_cong)
      then show ?thesis
        by (metis length_filter_le)
    qed
    then show ?thesis
      using later True by (simp add: admitted_in_last_second_def ts')
  next
    case False
    then have "admitted_in_last_second t w' = admitted_in_last_second t w"
      by (auto simp: admitted_in_last_second_def ts' ts_def)
    then show ?thesis using win by simp
  qed
  show ?thesis
  proof (cases "C \<le> n")
    case True
    then have nC': "n = C" using nC by simp
    have st: "req_count (api w') = 1" "last_req (api w') = a"
      using True
      by (simp_all add: w'_def a_def C_def n_def apply_rate_limit_def elapse_def sleep_def Let_def)
    have far: "last_req (api w) + 1 \<le> a"
      using True g
      by (simp add: w'_def a_def C_def n_def apply_rate_limit_def elapse_def sleep_def Let_def)
    have old': "\<forall>x \<in> set (older @ previous). x \<le> a - 1"
      using old prv far by auto
    have "length (filter (\<lambda>x. a - 1 < x) ts) \<le> length current"
    proof -
      have "filter (\<lambda>x. a - 1 < x) (older @ previous) = []"
        using old' by (intro filter_False) fastforce
      then show ?thesis
        unfolding split by (simp del: append_assoc add: append_assoc[symmetric])
    qed
    then have later: "int (length (filter (\<lambda>x. a - 1 < x) ts)) \<le> 2 * C - 1"
      using cur nC' C1 by simp
    have ghost: "admitted_times (trace w') = (older @ previous) @ current @ [a]
        \<and> int (length [a]) = req_count (api w')
        \<and> int (length current) \<le> reqs_per_sec (api w')
        \<and> (\<forall>x \<in> set (older @ previous). x \<le> last_req (api w') - 1)
        \<and> (\<forall>x \<in> set current. x \<le> last_req (api w'))"
    proof -
      have "\<forall>x \<in> set current. x \<le> a"
      proof
        fix x assume "x \<in> set current"
        then have "x \<le> clock w" using past by (simp add: split)
        then show "x \<le> a" using clock_le by (rule order_trans)
      qed
      then show ?thesis
        using old' cur nC by (simp add: ts' split st C')
    qed
    have ex: "\<exists>older previous current.
            admitted_times (trace w') = older @ previous @ current
            \<and> int (length current) = req_count (api w')
            \<and> int (length previous) \<le> reqs_per_sec (api w')
            \<and> (\<forall>a \<in> set older. a \<le> last_req (api w') - 1)
            \<and> (\<forall>a \<in> set previous. a \<le> last_req (api w'))"
      using ghost by blast
    have "last_req (api w') \<le> clock w'"
      by (simp add: st a_def)
    then show ?thesis
      unfolding window_invariant_def w'_def[symmetric]
      using C1 st(1) C' past' ex count[OF later]
      by simp
  next
    case False
    have st: "req_count (api w') = n + 1" "last_req (api w') = last_req (api w)"
      using False
      by (simp_all add: w'_def a_def C_def n_def apply_rate_limit_def elapse_def sleep_def Let_def)
    have "filter (\<lambda>x. a - 1 < x) older = []"
      using old lr clock_le by (intro filter_False) fastforce
    then have "length (filter (\<lambda>x. a - 1 < x) ts) \<le> length previous + length current"
      unfolding split by (simp add: le_SucI add_le_mono)
    then have later: "int (length (filter (\<lambda>x. a - 1 < x) ts)) \<le> 2 * C - 1"
      using cur prev False by simp
    have ghost: "admitted_times (trace w') = older @ previous @ (current @ [a])
        \<and> int (length (current @ [a])) = req_count (api w')
        \<and> int (length previous) \<le> reqs_per_sec (api w')
        \<and> (\<forall>x \<in> set older. x \<le> last_req (api w') - 1)
        \<and> (\<forall>x \<in> set previous. x \<le> last_req (api w'))"
      using old prv cur prev by (auto simp: ts' split st C')
    have ex: "\<exists>older previous current.
            admitted_times (trace w') = older @ previous @ current
            \<and> int (length current) = req_count (api w')
            \<and> int (length previous) \<le> reqs_per_sec (api w')
            \<and> (\<forall>a \<in> set older. a \<le> last_req (api w') - 1)
            \<and> (\<forall>a \<in> set previous. a \<le> last_req (api w'))"
      using ghost by blast
    have "last_req (api w') \<le> clock w'"
      using lr clock_le by (simp add: st a_def)
    then show ?thesis
      unfolding window_invariant_def w'_def[symmetric]
      using C1 st(1) C' past' ex count[OF later] n0 False
      by simp
  qed
qed

lemma window_invariant_start:
  assumes "1 \<le> C" and "0 \<le> t0"
  shows "window_invariant (start_world (init_client srv C) t0)"
  using assms
  by (simp add: window_invariant_def start_world_def init_client_def admitted_in_last_second_def)

lemma window_invariant_run:
  assumes "window_invariant w" and "\<forall>g \<in> set gaps. 0 \<le> g"
  shows "window_invariant (admit_calls gaps w)"
  using assms
proof (induction gaps arbitrary: w)
  case Nil
  then show ?case by simp
next
  case (Cons g gaps)
  have "window_invariant (apply_rate_limit (elapse g w))"
    using Cons.prems by (intro window_invariant_step) simp_all
  then show ?case
    using Cons.prems by (simp add: Cons.IH)
qed

lemma admit_calls_ceiling:
  "reqs_per_sec (api (admit_calls gaps w)) = reqs_per_sec (api w)"
  by (induction gaps arbitrary: w)
    (simp_all add: apply_rate_limit_def elapse_def sleep_def Let_def)

lemma at_most_twice_the_ceiling:
  assumes "1 \<le> C" and "0 \<le> t0" and "\<forall>g \<in> set gaps. 0 \<le> g"
  shows "int (admitted_in_last_second t (admit_calls gaps (start_world (init_client srv C) t0)))
           \<le> 2 * C"
proof -
  have "window_invariant (admit_calls gaps (start_world (init_client srv C) t0))"
    using assms by (intro window_invariant_run window_invariant_start)
  then have "int (admitted_in_last_second t (admit_calls gaps (start_world (init_client srv C) t0)))
      \<le> 2 * reqs_per_sec (api (admit_calls gaps (start_world (init_client srv C) t0)))"
    unfolding window_invariant_def by blast
  then show ?thesis
    by (simp add: admit_calls_ceiling start_world_def init_client_def)
qed

section \<open>Facts about the annotation of one record and about the batch\<close>

lemma update_variant_info_on_object:
  assumes "map_of variant ''hgvs'' = Some h"
    and "fst (perform_rest_action lib (''/vep/human/hgvs/'' @ py_str lib h)
                (Some [(''pick'', PInt 1)]) replies w) = Some (Inr vep_info)"
  shows "fst (update_variant_info lib variant replies w) = Some (merge_annotation variant vep_info)"
  using assms by (simp add: update_variant_info_result)

lemma update_variant_info_returns:
  assumes "fst (update_variant_info lib variant replies w) = Some (Inr r)"
  shows "\<exists>ann. map fst ann = annotation_fields \<and> r = dict_update variant ann"
proof -
  from assms obtain vep_info where "merge_annotation variant vep_info = Inr r"
    by (auto simp: update_variant_info_result split: option.splits sum.splits)
  then obtain ann where "extracted_fields variant vep_info = Inr ann" and "r = dict_update variant ann"
    by (auto simp: merge_annotation_def and_then_def split: sum.splits)
  then show ?thesis
    using extracted_fields_keys by blast
qed

lemma update_variant_info_frame:
  assumes "fst (update_variant_info lib variant replies w) = Some (Inr r)"
    and "k \<notin> set annotation_fields"
  shows "map_of r k = map_of variant k"
proof -
  obtain ann where "map fst ann = annotation_fields" and "r = dict_update variant ann"
    using update_variant_info_returns[OF assms(1)] by blast
  then show ?thesis
    using assms(2) by (simp add: dict_update_untouched)
qed

lemma merge_annotation_same_mapping:
  assumes "\<forall>k. k \<notin> set annotation_fields \<longrightarrow> map_of v1 k = map_of v2 k"
  shows "map_sum id map_of (merge_annotation v1 vep_info) = map_sum id map_of (merge_annotation v2 vep_info)"
proof -
  have "''alt'' \<notin> set annotation_fields"
    by (simp add: annotation_fields_def)
  then have same: "extracted_fields v1 vep_info = extracted_fields v2 vep_info"
    using assms by (intro extracted_fields_alt_only) blast
  show ?thesis
  proof (cases "extracted_fields v2 vep_info")
    case (Inl e)
    then show ?thesis by (simp add: merge_annotation_def same and_then_def)
  next
    case (Inr ann)
    then have keys: "map fst ann = annotation_fields"
      by (rule extracted_fields_keys)
    have "(map_of v1 ++ map_of (rev ann)) k = (map_of v2 ++ map_of (rev ann)) k" for k
    proof (cases "k \<in> set annotation_fields")
      case True
      then have "k \<in> fst ` set (rev ann)"
        using keys by (metis set_map set_rev)
      then obtain v where "map_of (rev ann) k = Some v"
        by (metis map_of_eq_None_iff not_Some_eq)
      then show ?thesis by (simp add: map_add_def)
    next
      case False
      then have "map_of (rev ann) k = None"
        using keys by (metis map_of_eq_None_iff set_map set_rev)
      then show ?thesis using assms False by (simp add: map_add_def)
    qed
    then have "map_of (dict_update v1 ann) = map_of (dict_update v2 ann)"
      by (simp add: map_of_dict_update fun_eq_iff)
    then show ?thesis
      by (simp add: merge_annotation_def same Inr and_then_def)
  qed
qed

lemma finished_all:
  "None \<notin> set os \<Longrightarrow> map Some (finished os) = os"
  by (induction os rule: finished.induct) auto

lemma gather_Inr:
  "gather futures acc = Inr rs \<Longrightarrow> map Inr rs = map Inr acc @ futures"
  by (induction futures acc rule: gather.induct) auto

lemma gather_all_returned:
  "gather (map Inr xs) acc = Inr (acc @ xs)"
  by (induction xs arbitrary: acc) auto

lemma process_variants_results:
  assumes "process_variants lib variants replies order t0 = Some (Inr rs)"
  shows "map (\<lambda>r. Some (Inr r)) rs = map (task_outcome lib variants replies t0) order"
proof -
  define os where "os = map (task_outcome lib variants replies t0) order"
  from assms have g: "gather (finished os) [] = Inr rs" and n: "None \<notin> set os"
    by (auto simp: process_variants_def os_def Let_def split: sum.splits if_splits)
  have "map Some (map Inr rs) = map Some (finished os)"
    using gather_Inr[OF g] by simp
  also have "\<dots> = os"
    using n by (rule finished_all)
  finally show ?thesis
    by (simp add: os_def comp_def)
qed

lemma task_outcome_identity:
  assumes "task_outcome lib variants replies t0 i = Some (Inr r)"
  shows "identity_of r = identity_of (variants ! i)"
proof -
  have "map_of r k = map_of (variants ! i) k" if "k \<notin> set annotation_fields" for k
    using assms that unfolding task_outcome_def by (rule update_variant_info_frame)
  then show ?thesis
    by (simp add: identity_of_def annotation_fields_def)
qed

lemma lookup_errors_stay_inside:
  assumes "map_of variant ''hgvs'' = Some h"
  shows "fst (update_variant_info lib variant replies w) \<noteq> Some (Inl KeyError)
       \<and> fst (update_variant_info lib variant replies w) \<noteq> Some (Inl IndexError)"
proof -
  have merge: "merge_annotation variant v \<noteq> Inl KeyError \<and> merge_annotation variant v \<noteq> Inl IndexError"
    for v
    using extracted_fields_not_lookup_error[of variant v]
    by (auto simp: merge_annotation_def and_then_def split: sum.splits)
  have rest: "fst (perform_rest_action lib e p replies w) \<noteq> Some (Inl KeyError)
      \<and> fst (perform_rest_action lib e p replies w) \<noteq> Some (Inl IndexError)" for e p
    using perform_rest_action_raises_only_ValueError[of lib e p replies w] by auto
  show ?thesis
    using assms merge rest
    by (auto simp: update_variant_info_result split: option.splits sum.splits)
qed

lemma absorbed_failures_give_null_annotation:
  assumes "map_of variant ''hgvs'' = Some h"
    and "r = NoConnection
         \<or> (\<exists>status retry body. r = Reply status retry body
               \<and> (400 \<le> status \<and> status \<noteq> 429
                  \<or> status < 400
                    \<and> (body = None \<or> (\<exists>j e. body = Some j \<and> getitem j (PInt 0) = Inl e))))"
  shows "fst (update_variant_info lib variant (r # rs) w) =
           Some (Inr (dict_update variant null_annotation))"
proof -
  have "fst (perform_rest_action lib endpoint params (r # rs) w) = Some (Inr (PDict []))"
    for endpoint params
    using assms(2) by (auto simp: Let_def)
  then show ?thesis
    using assms(1)
    by (simp add: update_variant_info_result merge_annotation_def extracted_fields_empty
        and_then_def)
qed

section \<open>The claims\<close>

subsection \<open>C1: the rate ceiling\<close>

text \<open>
  C1 (rate ceiling). The claim: with ceiling \<open>C\<close> (default 10), no trailing one-second
  interval sees more than \<open>C\<close> calls admitted by \<^verbatim>\<open>_apply_rate_limit\<close>. The limiter
  counts the calls since its last reset and waits only when the count has reached the ceiling
  and less than a second has passed since that reset; when the counted calls were admitted
  plays no part. The theorem runs a fresh client with the default ceiling on two bursts, the
  clock reading 1000 at the start (\<^verbatim>\<open>time.time()\<close> counts seconds since 1970).
  \<^enum> Twenty calls one millisecond apart: \<^verbatim>\<open>last_req\<close> starts at 0, so the first reset
    (the eleventh call) does not wait, and all twenty calls are admitted within 20 ms.
  \<^enum> Eleven calls at 1000 (the eleventh is the first reset), nine calls at 1000.9, then a call
    that finds the count at the ceiling 0.9 s after the reset, sleeps 0.1 s and is admitted at
    1001, and nine more right after it: the second that ends at 1001 sees nineteen calls
    admitted, all of them after the first reset.
\<close>

theorem bursts_exceed_the_ceiling:
  "admitted_in_last_second (1000 + 20 / 1000)
     (admit_calls (replicate 20 (1 / 1000)) (start_world default_client 1000)) = 20
   \<and> admitted_in_last_second 1001
     (admit_calls (replicate 11 0 @ [9 / 10] @ replicate 18 0) (start_world default_client 1000)) = 19"
  by (simp add: numeral_eq_Suc start_world_def default_client_def init_client_def
      apply_rate_limit_def elapse_def sleep_def Let_def admitted_in_last_second_def)

subsection \<open>C2: one result per record\<close>

text \<open>
  C2 (completeness), as amended. When every task returns a record, and \<open>order\<close> lists
  every task once, \<^verbatim>\<open>process_variants\<close> returns a list with one result per input record; the
  identifying fields (chromosome, position, reference and alternate allele) of the results are
  those of the input records taken in the order of completion, so results and inputs
  correspond one to one whatever that order is. The claim as stated, for every input sequence
  and whatever the service answers, does not hold: a task that raises ends the loop of lines 68
  to 71 and no list is returned (the counterexample below).
\<close>

theorem every_record_annotated_once:
  assumes order: "mset order = mset [0..<length variants]"
    and returns: "\<forall>i<length variants. \<exists>r. task_outcome lib variants replies t0 i = Some (Inr r)"
  shows "\<exists>rs. process_variants lib variants replies order t0 = Some (Inr rs)
      \<and> length rs = length variants
      \<and> (\<forall>j<length rs. identity_of (rs ! j) = identity_of (variants ! (order ! j)))
      \<and> mset (map identity_of rs) = mset (map identity_of variants)"
proof -
  define res where
    "res i = (case task_outcome lib variants replies t0 i of Some (Inr r) \<Rightarrow> r | _ \<Rightarrow> [])" for i
  have set_order: "set order = {0..<length variants}"
    using order by (metis mset_eq_setD set_upt)
  have len: "length order = length variants"
    using order by (metis mset_eq_length length_upt diff_zero)
  have out: "task_outcome lib variants replies t0 i = Some (Inr (res i))" if "i \<in> set order" for i
  proof -
    from that set_order have "i < length variants" by simp
    with returns obtain r where "task_outcome lib variants replies t0 i = Some (Inr r)" by blast
    then show ?thesis by (simp add: res_def)
  qed
  define rs where "rs = map res order"
  have outcomes: "map (task_outcome lib variants replies t0) order = map (\<lambda>i. Some (Inr (res i))) order"
    using out by simp
  have fin: "finished (map (\<lambda>i. Some (Inr (res i))) order) = map Inr rs"
    unfolding rs_def by (induction order) simp_all
  have ret: "process_variants lib variants replies order t0 = Some (Inr rs)"
    by (auto simp: process_variants_def outcomes fin gather_all_returned)
  have ident: "identity_of (rs ! j) = identity_of (variants ! (order ! j))" if "j < length rs" for j
  proof -
    from that have j: "j < length order" by (simp add: rs_def)
    then have "task_outcome lib variants replies t0 (order ! j) = Some (Inr (res (order ! j)))"
      by (intro out) simp
    then show ?thesis
      using j by (simp add: rs_def task_outcome_identity)
  qed
  have "identity_of (res i) = identity_of (variants ! i)" if "i \<in> set order" for i
    using out[OF that] by (rule task_outcome_identity)
  then have "map identity_of rs = map (\<lambda>i. identity_of (variants ! i)) order"
    by (simp add: rs_def)
  then have "mset (map identity_of rs) = image_mset (\<lambda>i. identity_of (variants ! i)) (mset order)"
    by simp
  also have "\<dots> = mset (map (\<lambda>i. identity_of (variants ! i)) [0..<length variants])"
    by (simp only: order mset_map)
  also have "map (\<lambda>i. identity_of (variants ! i)) [0..<length variants] =
      map identity_of (map ((!) variants) [0..<length variants])"
    by (simp only: map_map comp_def)
  also have "\<dots> = map identity_of variants"
    by (simp only: map_nth)
  finally have bij: "mset (map identity_of rs) = mset (map identity_of variants)" .
  show ?thesis
    using ret len ident bij by (intro exI[of _ rs]) (simp add: rs_def)
qed

text \<open>Scenarios A and B in one batch, B finishing first.\<close>

theorem every_record_annotated_witness:
  "process_variants scenario_lib [record_a, record_b]
     (\<lambda>i. if i = 0 then [Reply 200 None (Some (PList [PDict response_a]))] else [Reply 400 None None])
     [1, 0] 1000 =
   Some (Inr [record_b @ null_annotation, annotated_a])"
proof -
  let ?replies = "\<lambda>i::nat. if i = 0 then [Reply 200 None (Some (PList [PDict response_a]))]
                        else [Reply 400 None None]"
  have a: "task_outcome scenario_lib [record_a, record_b] ?replies 1000 0 = Some (Inr annotated_a)"
    by (simp add: task_outcome_def update_variant_info_def record_a_def response_a_def
        annotated_a_def merge_annotation_def extracted_fields_def extract_consequences_def
        extract_maf_def and_then_def dict_update_def seq_index_def scenario_lib_def Let_def)
  have b: "task_outcome scenario_lib [record_a, record_b] ?replies 1000 (Suc 0) =
      Some (Inr (record_b @ null_annotation))"
    by (simp add: task_outcome_def update_variant_info_def record_b_def merge_annotation_def
        extracted_fields_empty and_then_def dict_update_def null_annotation_def
        annotation_fields_def Let_def)
  have order: "mset [1, 0] = mset [0..<length [record_a, record_b]]"
    by (simp add: upt_rec)
  have returns: "\<forall>i<length [record_a, record_b].
      \<exists>r. task_outcome scenario_lib [record_a, record_b] ?replies 1000 i = Some (Inr r)"
    using a b by (auto simp: less_Suc_eq)
  from every_record_annotated_once[OF order returns]
  show ?thesis
    by (simp add: process_variants_def a b)
qed

text \<open>
  The same batch when the service answers the first request with the body \<^verbatim>\<open>[null]\<close>: the
  task raises \<^verbatim>\<open>TypeError\<close>, and \<^verbatim>\<open>process_variants\<close> raises it instead of returning two
  results.
\<close>

theorem malformed_body_aborts_batch_counterexample:
  "\<not> (\<exists>rs. process_variants scenario_lib [record_a, record_b]
          (\<lambda>i. if i = 0 then [Reply 200 None (Some (PList [PNone]))] else [Reply 400 None None])
          [1, 0] 1000 = Some (Inr rs)
        \<and> length rs = 2)"
proof -
  let ?replies = "\<lambda>i::nat. if i = 0 then [Reply 200 None (Some (PList [PNone]))]
                        else [Reply 400 None None]"
  have a: "task_outcome scenario_lib [record_a, record_b] ?replies 1000 0 = Some (Inl TypeError)"
    by (simp add: task_outcome_def update_variant_info_def record_a_def
        merge_annotation_def extracted_fields_def extract_consequences_def
        and_then_def seq_index_def Let_def)
  have b: "task_outcome scenario_lib [record_a, record_b] ?replies 1000 (Suc 0) =
      Some (Inr (record_b @ null_annotation))"
    by (simp add: task_outcome_def update_variant_info_def record_b_def merge_annotation_def
        extracted_fields_empty and_then_def dict_update_def null_annotation_def
        annotation_fields_def Let_def)
  have "process_variants scenario_lib [record_a, record_b] ?replies [1, 0] 1000 = Some (Inl TypeError)"
    by (simp add: process_variants_def a b)
  then show ?thesis by simp
qed

subsection \<open>C3: ordinary failures of the service\<close>

text \<open>
  C3 (failures are absorbed). The claim: a malformed response body, like a status 400, a
  status 5xx and a transport failure, never makes \<^verbatim>\<open>update_variant_info\<close> raise.
  \<^verbatim>\<open>perform_rest_action\<close> absorbs the error statuses, the transport failure, a body that does
  not decode and a body whose element zero cannot be taken (lemma
  \<open>absorbed_failures_give_null_annotation\<close>). A body that decodes to \<^verbatim>\<open>[null]\<close>, or to a JSON
  string, passes it: the value returned is not a \<^verbatim>\<open>dict\<close>, the subscription of line 120
  raises \<^verbatim>\<open>TypeError\<close>, and \<^verbatim>\<open>except (IndexError, KeyError)\<close> lets it through. The
  exception leaves the client, ends \<^verbatim>\<open>process_variants\<close>, and the program exits with status 1
  without a report.
\<close>

theorem malformed_body_escapes_the_client:
  "fst (update_variant_info lib record_a (Reply 200 None (Some (PList [PNone])) # rs) w) =
     Some (Inl TypeError)
   \<and> fst (update_variant_info lib record_a (Reply 200 None (Some (PStr ''Bad Gateway'')) # rs) w) =
     Some (Inl TypeError)
   \<and> process_variants lib [record_a] (\<lambda>i. [Reply 200 None (Some (PList [PNone]))]) [0] t0 =
     Some (Inl TypeError)
   \<and> main lib (Inr [record_a]) (\<lambda>i. [Reply 200 None (Some (PList [PNone]))]) [0] t0
        output_tsv fs = Some (1, fs)"
proof -
  have a: "fst (update_variant_info lib record_a (Reply 200 None (Some (PList [PNone])) # rs') w') =
     Some (Inl TypeError)" for rs' w'
    by (simp add: update_variant_info_def record_a_def Let_def seq_index_def
        merge_annotation_def extracted_fields_def extract_consequences_def and_then_def)
  have b: "fst (update_variant_info lib record_a (Reply 200 None (Some (PStr ''Bad Gateway'')) # rs) w) =
     Some (Inl TypeError)"
    by (simp add: update_variant_info_def record_a_def Let_def seq_index_def
        merge_annotation_def extracted_fields_def extract_consequences_def and_then_def)
  have c: "process_variants lib [record_a] (\<lambda>i. [Reply 200 None (Some (PList [PNone]))]) [0] t0 =
     Some (Inl TypeError)"
    by (simp add: process_variants_def task_outcome_def a)
  show ?thesis
    using a b c by (simp add: main_def)
qed

subsection \<open>C4: a throttled request is retried after the delay\<close>

text \<open>
  C4 (Retry-After honoured). For a request answered with status 429 and a \<^verbatim>\<open>Retry-After\<close>
  header that \<^verbatim>\<open>float\<close> reads as \<open>d\<close>: the call sleeps \<open>d\<close> seconds and goes on as
  the same call (same endpoint, same parameters) on the replies that follow. Its second
  request has the URL of the first, is sent no earlier than \<open>d\<close> seconds after the first,
  and has passed \<^verbatim>\<open>_apply_rate_limit\<close> as an admitted call of its own.
\<close>

theorem retry_after_is_honoured:
  assumes "py_float lib ra = Some d"
  shows "(let url = request_url lib (server (api w)) endpoint params;
              w1 = apply_rate_limit w;
              w2 = apply_rate_limit (sleep d (send_request url w1));
              outcome = perform_rest_action lib endpoint params (Reply 429 (Some ra) body # rs) w
          in outcome = perform_rest_action lib endpoint params rs (sleep d (send_request url w1))
           \<and> clock w1 + d \<le> clock w2
           \<and> (\<exists>more. sent_requests (trace (snd outcome)) =
                  sent_requests (trace w) @ (clock w1, url) # (clock w2, url) # more)
           \<and> (\<exists>more. admitted_times (trace (snd outcome)) =
                  admitted_times (trace w) @ clock w1 # clock w2 # more))"
proof -
  define url where "url = request_url lib (server (api w)) endpoint params"
  define w1 where "w1 = apply_rate_limit w"
  define ws where "ws = sleep d (send_request url w1)"
  define w2 where "w2 = apply_rate_limit ws"
  define outcome where "outcome = perform_rest_action lib endpoint params (Reply 429 (Some ra) body # rs) w"
  have retry: "outcome = perform_rest_action lib endpoint params rs ws"
    using assms by (simp add: outcome_def ws_def w1_def url_def)
  have srv: "server (api ws) = server (api w)"
    by (simp add: ws_def sleep_def send_request_def w1_def apply_rate_limit_server)
  have "clock w1 + d \<le> clock ws"
    by (simp add: ws_def sleep_def send_request_def)
  also have "\<dots> \<le> clock w2"
    unfolding w2_def by (rule apply_rate_limit_clock)
  finally have wait: "clock w1 + d \<le> clock w2" .
  obtain more where more: "trace (snd outcome) = trace w2 @ Sent (clock w2) url # more"
    using perform_rest_action_first_request[of lib endpoint params rs ws]
    unfolding retry w2_def url_def srv by blast
  have sent_ws: "sent_requests (trace ws) = sent_requests (trace w) @ [(clock w1, url)]"
    by (simp add: ws_def sleep_def send_request_def sent_requests_append w1_def apply_rate_limit_sent)
  have adm_ws: "admitted_times (trace ws) = admitted_times (trace w) @ [clock w1]"
    by (simp add: ws_def sleep_def send_request_def admitted_times_append w1_def
        apply_rate_limit_admitted)
  have sent: "sent_requests (trace (snd outcome)) =
      sent_requests (trace w) @ (clock w1, url) # (clock w2, url) # sent_requests more"
    by (simp add: more sent_requests_append w2_def apply_rate_limit_sent sent_ws)
  have adm: "admitted_times (trace (snd outcome)) =
      admitted_times (trace w) @ clock w1 # clock w2 # admitted_times more"
    by (simp add: more admitted_times_append w2_def apply_rate_limit_admitted adm_ws)
  show ?thesis
    unfolding Let_def
    using retry wait sent adm
    unfolding outcome_def w2_def ws_def w1_def url_def
    by blast
qed

text \<open>
  Status 429 with \<^verbatim>\<open>Retry-After: 2\<close>, then success: two requests with the same URL, two
  seconds apart, each admitted, and the response object is returned.
\<close>

theorem retry_after_two_seconds_witness:
  "py_float scenario_lib ''2'' = Some 2
   \<and> (let outcome = perform_rest_action scenario_lib ''/vep/human/hgvs/1:g.100A>T''
                   (Some [(''pick'', PInt 1)])
                   [Reply 429 (Some ''2'') None, Reply 200 None (Some (PList [PDict response_a]))]
                   (start_world default_client 1000)
       in fst outcome = Some (Inr (PDict response_a))
        \<and> sent_requests (trace (snd outcome)) =
            [(1000, ''https://grch37.rest.ensembl.org/vep/human/hgvs/1:g.100A>T?pick=1''),
             (1002, ''https://grch37.rest.ensembl.org/vep/human/hgvs/1:g.100A>T?pick=1'')]
        \<and> admitted_times (trace (snd outcome)) = [1000, 1002])"
  using retry_after_is_honoured
    [of scenario_lib "''2''" 2 "start_world default_client 1000" "''/vep/human/hgvs/1:g.100A>T''"
        "Some [(''pick'', PInt 1)]" None "[Reply 200 None (Some (PList [PDict response_a]))]"]
  by (simp add: scenario_lib_def start_world_def default_client_def init_client_def
      apply_rate_limit_def send_request_def request_url_def sleep_def Let_def seq_index_def)

subsection \<open>C5: missing parts of the response\<close>

text \<open>
  C5 (graceful degradation), as amended. For a record of the reader (it has \<^verbatim>\<open>hgvs\<close>, and
  \<^verbatim>\<open>alt\<close> is a string) and a response object of the documented shape,
  \<^verbatim>\<open>update_variant_info\<close> returns a record, and a part missing on an extraction path makes
  the field null: the key \<^verbatim>\<open>transcript_consequences\<close> or \<^verbatim>\<open>colocated_variants\<close> missing, an
  empty array, or a key missing further along the path (\<open>member_of\<close>, \<open>first_of\<close>
  and \<open>last_of\<close> are \<open>None\<close> exactly when the step is missing). The claim as stated,
  for every response object with a missing part, does not hold: where another part of the
  object has a value of the wrong type the call raises (the counterexample below).
\<close>

theorem missing_parts_become_null:
  assumes hgvs: "map_of variant ''hgvs'' = Some h"
    and alt: "map_of variant ''alt'' = Some (PStr a)"
    and got: "fst (perform_rest_action lib (''/vep/human/hgvs/'' @ py_str lib h)
                (Some [(''pick'', PInt 1)]) replies w) = Some (Inr (PDict d))"
    and shape: "response_object d"
  shows "\<exists>r. fst (update_variant_info lib variant replies w) = Some (Inr r)
     \<and> ((map_of d ''transcript_consequences'' = None
          \<or> map_of d ''transcript_consequences'' = Some (PList []))
         \<longrightarrow> map (map_of r) [''gene_id'', ''gene_symbol'', ''biotype'', ''impact'']
               = replicate 4 (Some PNone))
     \<and> ((map_of d ''colocated_variants'' = None
          \<or> map_of d ''colocated_variants'' = Some (PList []))
         \<longrightarrow> map_of r ''minor_allele_frequency'' = Some PNone)
     \<and> (\<forall>k \<in> set [''gene_id'', ''gene_symbol'', ''biotype'', ''impact''].
           member_of k (first_of (map_of d ''transcript_consequences'')) = None
           \<longrightarrow> map_of r k = Some PNone)
     \<and> (map_of d ''most_severe_consequence'' = None
         \<longrightarrow> map_of r ''most_severe_consequence'' = Some PNone)
     \<and> (member_of ''af'' (member_of a (member_of ''frequencies''
           (last_of (map_of d ''colocated_variants'')))) = None
         \<longrightarrow> map_of r ''minor_allele_frequency'' = Some PNone)"
proof -
  define r where "r = dict_update variant (spec_annotation d a)"
  have ret: "fst (update_variant_info lib variant replies w) = Some (Inr r)"
    by (simp add: update_variant_info_on_object[OF hgvs got] merge_annotation_def
        extracted_fields_response_object[OF shape alt] and_then_def r_def)
  have look: "map_of r = map_of variant ++ map_of (rev (spec_annotation d a))"
    by (simp add: r_def map_of_dict_update)
  have tc: "(map_of d ''transcript_consequences'' = None
          \<or> map_of d ''transcript_consequences'' = Some (PList []))
         \<longrightarrow> map (map_of r) [''gene_id'', ''gene_symbol'', ''biotype'', ''impact'']
               = replicate 4 (Some PNone)"
    by (auto simp: look spec_annotation_def Let_def numeral_eq_Suc)
  have cv: "(map_of d ''colocated_variants'' = None
          \<or> map_of d ''colocated_variants'' = Some (PList []))
         \<longrightarrow> map_of r ''minor_allele_frequency'' = Some PNone"
    by (auto simp: look spec_annotation_def Let_def)
  have keys: "\<forall>k \<in> set [''gene_id'', ''gene_symbol'', ''biotype'', ''impact''].
           member_of k (first_of (map_of d ''transcript_consequences'')) = None
           \<longrightarrow> map_of r k = Some PNone"
    by (simp add: look spec_annotation_def Let_def)
  have msc: "map_of d ''most_severe_consequence'' = None
         \<longrightarrow> map_of r ''most_severe_consequence'' = Some PNone"
    by (simp add: look spec_annotation_def Let_def)
  have maf: "member_of ''af'' (member_of a (member_of ''frequencies''
           (last_of (map_of d ''colocated_variants'')))) = None
         \<longrightarrow> map_of r ''minor_allele_frequency'' = Some PNone"
    by (simp add: look spec_annotation_def Let_def)
  show ?thesis
    by (rule exI[of _ r]) (intro conjI ret tc cv keys msc maf)
qed

text \<open>A response with no transcript consequences and an empty array of colocated variants.\<close>

theorem missing_parts_witness:
  "map_of record_a ''hgvs'' = Some (PStr ''1:g.100A>T'')
   \<and> map_of record_a ''alt'' = Some (PStr ''T'')
   \<and> response_object [(''most_severe_consequence'', PStr ''intergenic_variant''),
                       (''colocated_variants'', PList [])]
   \<and> fst (update_variant_info scenario_lib record_a
        [Reply 200 None (Some (PList [PDict [(''most_severe_consequence'', PStr ''intergenic_variant''),
                       (''colocated_variants'', PList [])]]))]
        (start_world default_client 1000)) =
      Some (Inr (record_a @
        [(''gene_id'', PNone), (''gene_symbol'', PNone), (''biotype'', PNone), (''impact'', PNone),
         (''most_severe_consequence'', PStr ''intergenic_variant''),
         (''minor_allele_frequency'', PNone)]))"
  using missing_parts_become_null
    [of record_a "PStr ''1:g.100A>T''" "''T''" scenario_lib
        "[Reply 200 None (Some (PList [PDict [(''most_severe_consequence'', PStr ''intergenic_variant''),
                       (''colocated_variants'', PList [])]]))]"
        "start_world default_client 1000"
        "[(''most_severe_consequence'', PStr ''intergenic_variant''), (''colocated_variants'', PList [])]"]
  by (simp add: record_a_def response_object_def update_variant_info_def merge_annotation_def
      extracted_fields_def extract_consequences_def extract_maf_def and_then_def dict_update_def
      seq_index_def Let_def)

text \<open>
  Two response objects outside the documented shape. In the first \<^verbatim>\<open>colocated_variants\<close> is
  missing and element zero of \<^verbatim>\<open>transcript_consequences\<close> is \<^verbatim>\<open>null\<close>: the \<^verbatim>\<open>.get\<close> of
  line 133 raises \<^verbatim>\<open>AttributeError\<close>. In the second \<^verbatim>\<open>transcript_consequences\<close> is missing
  and the frequency entry of the allele is \<^verbatim>\<open>null\<close>: the subscription with \<^verbatim>\<open>"af"\<close> at
  line 127 raises \<^verbatim>\<open>TypeError\<close>. Neither is caught by \<^verbatim>\<open>except (IndexError, KeyError)\<close>.
\<close>

theorem ill_typed_part_raises_counterexample:
  "map_of [(''transcript_consequences'', PList [PNone]), (''most_severe_consequence'', PStr ''x'')]
      ''colocated_variants'' = None
   \<and> fst (update_variant_info scenario_lib record_a
          [Reply 200 None (Some (PList [PDict
             [(''transcript_consequences'', PList [PNone]),
              (''most_severe_consequence'', PStr ''x'')]]))]
          (start_world default_client 1000)) = Some (Inl AttributeError)
   \<and> map_of [(''colocated_variants'',
                 PList [PDict [(''frequencies'', PDict [(''T'', PNone)])]])]
      ''transcript_consequences'' = None
   \<and> fst (update_variant_info scenario_lib record_a
          [Reply 200 None (Some (PList [PDict
             [(''colocated_variants'',
                 PList [PDict [(''frequencies'', PDict [(''T'', PNone)])]])]]))]
          (start_world default_client 1000)) = Some (Inl TypeError)"
  by (simp add: update_variant_info_def record_a_def merge_annotation_def extracted_fields_def
      extract_consequences_def extract_maf_def and_then_def seq_index_def Let_def)

subsection \<open>C6: annotating a record again\<close>

text \<open>
  C6 (idempotent merge). Let \<open>carried\<close> be a record that already carries annotation
  fields and \<open>variant\<close> any record with the same values in all other fields.
  \<^item> On the same replies \<^verbatim>\<open>update_variant_info\<close> has the same outcome on both, as mappings
    from field to value: the result depends only on the replies and the fields that are not
    annotation fields.
  \<^item> The fields of a returned record are distinct when those of the input are, and when the
    input has the six annotation fields the result has the fields of the input, in the same
    order: no field is duplicated.
  \<^item> When the call obtains a response object \<open>d\<close> of the documented shape, the record
    returned is \<open>carried\<close> with the six fields set to the values of \<open>d\<close>: each of the
    four gene fields is the value under its key in element zero of
    \<^verbatim>\<open>transcript_consequences\<close>, \<^verbatim>\<open>most_severe_consequence\<close> the top-level value, the minor
    allele frequency the value at the end of its path, and each is null (\<open>or_null\<close>) when
    \<open>d\<close> has no such value, whatever \<open>carried\<close> held before.
\<close>

theorem rerun_overwrites_annotation:
  assumes same: "\<forall>k. k \<notin> set annotation_fields \<longrightarrow> map_of carried k = map_of variant k"
  shows "as_mapping (fst (update_variant_info lib carried replies w)) =
         as_mapping (fst (update_variant_info lib variant replies w))
     \<and> (\<forall>r. fst (update_variant_info lib carried replies w) = Some (Inr r) \<longrightarrow>
            (distinct (map fst carried) \<longrightarrow> distinct (map fst r))
          \<and> (set annotation_fields \<subseteq> set (map fst carried) \<longrightarrow> map fst r = map fst carried))
     \<and> (map_of carried ''hgvs'' = Some h \<and> map_of carried ''alt'' = Some (PStr a)
          \<and> fst (perform_rest_action lib (''/vep/human/hgvs/'' @ py_str lib h)
                 (Some [(''pick'', PInt 1)]) replies w) = Some (Inr (PDict d))
          \<and> response_object d
         \<longrightarrow> fst (update_variant_info lib carried replies w) =
               Some (Inr (dict_update carried (spec_annotation d a)))
           \<and> map (map_of (dict_update carried (spec_annotation d a))) annotation_fields =
               map (\<lambda>kv. Some (snd kv)) (spec_annotation d a)
           \<and> (\<forall>k \<in> set [''gene_id'', ''gene_symbol'', ''biotype'', ''impact''].
                 map_of (dict_update carried (spec_annotation d a)) k =
                   Some (or_null (member_of k (first_of (map_of d ''transcript_consequences'')))))
           \<and> map_of (dict_update carried (spec_annotation d a)) ''most_severe_consequence'' =
                 Some (or_null (map_of d ''most_severe_consequence''))
           \<and> map_of (dict_update carried (spec_annotation d a)) ''minor_allele_frequency'' =
                 Some (or_null (member_of ''af'' (member_of a (member_of ''frequencies''
                         (last_of (map_of d ''colocated_variants'')))))))"
proof -
  have "''hgvs'' \<notin> set annotation_fields"
    by (simp add: annotation_fields_def)
  then have hgvs: "map_of carried ''hgvs'' = map_of variant ''hgvs''"
    using same by blast
  have indep: "as_mapping (fst (update_variant_info lib carried replies w)) =
         as_mapping (fst (update_variant_info lib variant replies w))"
    unfolding update_variant_info_result hgvs as_mapping_def
    using merge_annotation_same_mapping[OF same]
    by (simp split: option.splits sum.splits)
  have keys: "\<forall>r. fst (update_variant_info lib carried replies w) = Some (Inr r) \<longrightarrow>
            (distinct (map fst carried) \<longrightarrow> distinct (map fst r))
          \<and> (set annotation_fields \<subseteq> set (map fst carried) \<longrightarrow> map fst r = map fst carried)"
  proof (intro allI impI)
    fix r
    assume ret: "fst (update_variant_info lib carried replies w) = Some (Inr r)"
    obtain ann where ann: "map fst ann = annotation_fields" and r: "r = dict_update carried ann"
      using update_variant_info_returns[OF ret] by blast
    have "set (map fst ann) = set annotation_fields"
      by (simp only: ann)
    then show "(distinct (map fst carried) \<longrightarrow> distinct (map fst r))
          \<and> (set annotation_fields \<subseteq> set (map fst carried) \<longrightarrow> map fst r = map fst carried)"
      unfolding r using distinct_dict_update key_order_dict_update by metis
  qed
  have fresh: "fst (update_variant_info lib carried replies w) =
               Some (Inr (dict_update carried (spec_annotation d a)))"
    if "map_of carried ''hgvs'' = Some h" and "map_of carried ''alt'' = Some (PStr a)"
      and "fst (perform_rest_action lib (''/vep/human/hgvs/'' @ py_str lib h)
                 (Some [(''pick'', PInt 1)]) replies w) = Some (Inr (PDict d))"
      and "response_object d"
    using that
    by (simp add: update_variant_info_on_object merge_annotation_def
        extracted_fields_response_object and_then_def)
  have six: "map (map_of (dict_update carried (spec_annotation d a))) annotation_fields =
               map (\<lambda>kv. Some (snd kv)) (spec_annotation d a)"
    by (simp add: map_of_dict_update spec_annotation_def annotation_fields_def Let_def)
  have gene: "\<forall>k \<in> set [''gene_id'', ''gene_symbol'', ''biotype'', ''impact''].
                 map_of (dict_update carried (spec_annotation d a)) k =
                   Some (or_null (member_of k (first_of (map_of d ''transcript_consequences''))))"
    by (simp add: map_of_dict_update spec_annotation_def Let_def)
  have msc: "map_of (dict_update carried (spec_annotation d a)) ''most_severe_consequence'' =
                 Some (or_null (map_of d ''most_severe_consequence''))"
    by (simp add: map_of_dict_update spec_annotation_def Let_def)
  have maf: "map_of (dict_update carried (spec_annotation d a)) ''minor_allele_frequency'' =
                 Some (or_null (member_of ''af'' (member_of a (member_of ''frequencies''
                         (last_of (map_of d ''colocated_variants''))))))"
    by (simp add: map_of_dict_update spec_annotation_def Let_def)
  show ?thesis
    using fresh by (intro conjI indep keys impI six gene msc maf) simp
qed

text \<open>
  The annotated record of scenario A (gene G1, biotype, impact and a frequency), annotated
  again on a response that names gene G2 and has no biotype, no impact and no colocated
  variants: the gene fields take the new values, the three missing fields are null, the field
  list is unchanged, and the result is that of the record that was never annotated.
\<close>

theorem rerun_overwrites_witness:
  "fst (update_variant_info scenario_lib annotated_a
          [Reply 200 None (Some (PList [PDict response_later]))] (start_world default_client 1000)) =
     Some (Inr (record_a @
        [(''gene_id'', PStr ''G2''), (''gene_symbol'', PStr ''GENE2''),
         (''biotype'', PNone), (''impact'', PNone),
         (''most_severe_consequence'', PStr ''intron_variant''),
         (''minor_allele_frequency'', PNone)]))
   \<and> as_mapping (fst (update_variant_info scenario_lib annotated_a
          [Reply 200 None (Some (PList [PDict response_later]))] (start_world default_client 1000))) =
     as_mapping (fst (update_variant_info scenario_lib record_a
          [Reply 200 None (Some (PList [PDict response_later]))] (start_world default_client 1000)))"
proof -
  have same: "\<forall>k. k \<notin> set annotation_fields \<longrightarrow> map_of annotated_a k = map_of record_a k"
    by (simp add: annotation_fields_def annotated_a_def record_a_def)
  have shape: "response_object response_later"
    by (simp add: response_object_def response_later_def)
  have got: "fst (perform_rest_action scenario_lib
      (''/vep/human/hgvs/'' @ py_str scenario_lib (PStr ''1:g.100A>T''))
      (Some [(''pick'', PInt 1)]) [Reply 200 None (Some (PList [PDict response_later]))]
      (start_world default_client 1000)) = Some (Inr (PDict response_later))"
    by (simp add: Let_def seq_index_def)
  have fields: "spec_annotation response_later ''T'' =
        [(''gene_id'', PStr ''G2''), (''gene_symbol'', PStr ''GENE2''),
         (''biotype'', PNone), (''impact'', PNone),
         (''most_severe_consequence'', PStr ''intron_variant''),
         (''minor_allele_frequency'', PNone)]"
    by (simp add: spec_annotation_def response_later_def Let_def)
  have upd: "dict_update annotated_a
        [(''gene_id'', PStr ''G2''), (''gene_symbol'', PStr ''GENE2''),
         (''biotype'', PNone), (''impact'', PNone),
         (''most_severe_consequence'', PStr ''intron_variant''),
         (''minor_allele_frequency'', PNone)] =
      record_a @
        [(''gene_id'', PStr ''G2''), (''gene_symbol'', PStr ''GENE2''),
         (''biotype'', PNone), (''impact'', PNone),
         (''most_severe_consequence'', PStr ''intron_variant''),
         (''minor_allele_frequency'', PNone)]"
    by (simp add: annotated_a_def record_a_def dict_update_def)
  have hg: "map_of annotated_a ''hgvs'' = Some (PStr ''1:g.100A>T'')"
    and al: "map_of annotated_a ''alt'' = Some (PStr ''T'')"
    by (simp_all add: annotated_a_def record_a_def)
  note rerun = rerun_overwrites_annotation[OF same, of scenario_lib
      "[Reply 200 None (Some (PList [PDict response_later]))]" "start_world default_client 1000"
      "PStr ''1:g.100A>T''" "''T''" response_later]
  have indep: "as_mapping (fst (update_variant_info scenario_lib annotated_a
          [Reply 200 None (Some (PList [PDict response_later]))] (start_world default_client 1000))) =
     as_mapping (fst (update_variant_info scenario_lib record_a
          [Reply 200 None (Some (PList [PDict response_later]))] (start_world default_client 1000)))"
    using rerun by (rule conjunct1)
  have "fst (update_variant_info scenario_lib annotated_a
          [Reply 200 None (Some (PList [PDict response_later]))] (start_world default_client 1000)) =
      Some (Inr (dict_update annotated_a (spec_annotation response_later ''T'')))"
    using rerun hg al got shape by blast
  then show ?thesis
    using indep by (simp add: fields upd)
qed

subsection \<open>C7: where the fields come from\<close>

text \<open>
  C7 (extraction paths). For a record of the reader and a response object of the documented
  shape, the record returned is the input updated with the six fields that the specification
  names: \<^verbatim>\<open>gene_id\<close>, \<^verbatim>\<open>gene_symbol\<close>, \<^verbatim>\<open>biotype\<close> and \<^verbatim>\<open>impact\<close> read from element zero
  of \<^verbatim>\<open>transcript_consequences\<close>, \<^verbatim>\<open>most_severe_consequence\<close> from the top level, and the
  minor allele frequency from the last element of \<^verbatim>\<open>colocated_variants\<close>, under
  \<^verbatim>\<open>frequencies\<close>, the alternate allele of the record, and \<^verbatim>\<open>af\<close> (\<open>spec_annotation\<close>);
  looking the six fields up in the result gives these values.
\<close>

theorem fields_come_from_their_paths:
  assumes hgvs: "map_of variant ''hgvs'' = Some h"
    and alt: "map_of variant ''alt'' = Some (PStr a)"
    and got: "fst (perform_rest_action lib (''/vep/human/hgvs/'' @ py_str lib h)
                (Some [(''pick'', PInt 1)]) replies w) = Some (Inr (PDict d))"
    and shape: "response_object d"
  shows "fst (update_variant_info lib variant replies w) =
           Some (Inr (dict_update variant (spec_annotation d a)))
     \<and> map (map_of (dict_update variant (spec_annotation d a))) annotation_fields =
           map (\<lambda>kv. Some (snd kv)) (spec_annotation d a)"
proof -
  have "fst (update_variant_info lib variant replies w) =
           Some (Inr (dict_update variant (spec_annotation d a)))"
    by (simp add: update_variant_info_on_object[OF hgvs got] merge_annotation_def
        extracted_fields_response_object[OF shape alt] and_then_def)
  moreover have "map (map_of (dict_update variant (spec_annotation d a))) annotation_fields =
           map (\<lambda>kv. Some (snd kv)) (spec_annotation d a)"
    by (simp add: map_of_dict_update spec_annotation_def annotation_fields_def Let_def)
  ultimately show ?thesis by simp
qed

text \<open>Scenario A: the merged record has \<^verbatim>\<open>gene_id\<close> G1 and minor allele frequency 0.05.\<close>

theorem scenario_a_witness:
  "response_object response_a
   \<and> fst (update_variant_info scenario_lib record_a
          [Reply 200 None (Some (PList [PDict response_a]))] (start_world default_client 1000)) =
     Some (Inr (record_a @
        [(''gene_id'', PStr ''G1''), (''gene_symbol'', PStr ''GENE1''),
         (''biotype'', PStr ''protein_coding''), (''impact'', PStr ''MODERATE''),
         (''most_severe_consequence'', PStr ''missense_variant''),
         (''minor_allele_frequency'', PFloat (5 / 100))]))"
proof -
  have shape: "response_object response_a"
    by (simp add: response_object_def response_a_def)
  have got: "fst (perform_rest_action scenario_lib
      (''/vep/human/hgvs/'' @ py_str scenario_lib (PStr ''1:g.100A>T''))
      (Some [(''pick'', PInt 1)]) [Reply 200 None (Some (PList [PDict response_a]))]
      (start_world default_client 1000)) = Some (Inr (PDict response_a))"
    by (simp add: Let_def seq_index_def)
  have fields: "spec_annotation response_a ''T'' =
        [(''gene_id'', PStr ''G1''), (''gene_symbol'', PStr ''GENE1''),
         (''biotype'', PStr ''protein_coding''), (''impact'', PStr ''MODERATE''),
         (''most_severe_consequence'', PStr ''missense_variant''),
         (''minor_allele_frequency'', PFloat (5 / 100))]"
    by (simp add: spec_annotation_def response_a_def Let_def)
  from fields_come_from_their_paths[of record_a "PStr ''1:g.100A>T''" "''T''" scenario_lib
      "[Reply 200 None (Some (PList [PDict response_a]))]" "start_world default_client 1000"
      response_a, OF _ _ got shape]
  show ?thesis
    using shape by (simp add: fields record_a_def dict_update_def)
qed

text \<open>
  The same without the shape, for a response in which every step of the paths is there: the
  values are those found along the paths.
\<close>

lemma fields_when_every_path_is_present:
  assumes hgvs: "map_of variant ''hgvs'' = Some h"
    and alt: "map_of variant ''alt'' = Some (PStr a)"
    and got: "fst (perform_rest_action lib (''/vep/human/hgvs/'' @ py_str lib h)
                (Some [(''pick'', PInt 1)]) replies w) = Some (Inr (PDict d))"
    and tc: "map_of d ''transcript_consequences'' = Some (PList (PDict t # tcs))"
    and cv: "map_of d ''colocated_variants'' = Some (PList cvs)" "cvs \<noteq> []" "last cvs = PDict c"
    and fr: "map_of c ''frequencies'' = Some (PDict f)"
    and al: "map_of f a = Some (PDict g)"
    and af: "map_of g ''af'' = Some maf"
  shows "fst (update_variant_info lib variant replies w) =
     Some (Inr (dict_update variant
       [(''gene_id'', or_null (map_of t ''gene_id'')),
        (''gene_symbol'', or_null (map_of t ''gene_symbol'')),
        (''biotype'', or_null (map_of t ''biotype'')),
        (''impact'', or_null (map_of t ''impact'')),
        (''most_severe_consequence'', or_null (map_of d ''most_severe_consequence'')),
        (''minor_allele_frequency'', maf)]))"
proof -
  obtain x xs where cvs: "cvs = x # xs"
    using cv(2) by (cases cvs) auto
  have cons: "extract_consequences (PDict d) = Inr (PDict t)"
    using tc by (simp add: extract_consequences_def and_then_def seq_index_first)
  have freq: "extract_maf variant (PDict d) = Inr maf"
    using cv(1,3) fr al af alt unfolding cvs
    by (simp add: extract_maf_def and_then_def seq_index_last del: last.simps)
  have "extracted_fields variant (PDict d) = Inr
       [(''gene_id'', or_null (map_of t ''gene_id'')),
        (''gene_symbol'', or_null (map_of t ''gene_symbol'')),
        (''biotype'', or_null (map_of t ''biotype'')),
        (''impact'', or_null (map_of t ''impact'')),
        (''most_severe_consequence'', or_null (map_of d ''most_severe_consequence'')),
        (''minor_allele_frequency'', maf)]"
    by (simp add: extracted_fields_def cons freq and_then_def split: option.splits)
  then show ?thesis
    by (simp add: update_variant_info_on_object[OF hgvs got] merge_annotation_def and_then_def)
qed

subsection \<open>C8: the other fields are left alone\<close>

text \<open>
  C8 (frame). A record returned by \<^verbatim>\<open>update_variant_info\<close> has, for every field that is not
  one of the six annotation fields, the value of the input record, and its fields are those of
  the input and the six. The list that \<^verbatim>\<open>process_variants\<close> returns holds the records the
  tasks returned, as they were returned, and \<^verbatim>\<open>main\<close> passes that list to \<^verbatim>\<open>write_to_tsv\<close>.
\<close>

theorem only_annotation_fields_change:
  "(\<forall>r. fst (update_variant_info lib variant replies w) = Some (Inr r) \<longrightarrow>
       (\<forall>k. k \<notin> set annotation_fields \<longrightarrow> map_of r k = map_of variant k)
     \<and> set (map fst r) = set (map fst variant) \<union> set annotation_fields)
   \<and> (\<forall>rs. process_variants lib variants task_replies order t0 = Some (Inr rs) \<longrightarrow>
        map (\<lambda>r. Some (Inr r)) rs = map (task_outcome lib variants task_replies t0) order
      \<and> main lib (Inr variants) task_replies order t0 output_tsv fs =
          (case write_to_tsv rs output_tsv fs of
             (None, fs') \<Rightarrow> Some (0, fs')
           | (Some e, fs') \<Rightarrow> Some (1, fs')))"
proof -
  have frame: "(\<forall>k. k \<notin> set annotation_fields \<longrightarrow> map_of r k = map_of variant k)
     \<and> set (map fst r) = set (map fst variant) \<union> set annotation_fields"
    if ret: "fst (update_variant_info lib variant replies w) = Some (Inr r)" for r
  proof -
    obtain ann where ann: "map fst ann = annotation_fields" and r: "r = dict_update variant ann"
      using update_variant_info_returns[OF ret] by blast
    have "set (map fst r) = set (map fst variant) \<union> set (map fst ann)"
      unfolding r by (rule keys_dict_update)
    then show ?thesis
      using update_variant_info_frame[OF ret] by (simp only: ann) blast
  qed
  have sink: "map (\<lambda>r. Some (Inr r)) rs = map (task_outcome lib variants task_replies t0) order
      \<and> main lib (Inr variants) task_replies order t0 output_tsv fs =
          (case write_to_tsv rs output_tsv fs of
             (None, fs') \<Rightarrow> Some (0, fs')
           | (Some e, fs') \<Rightarrow> Some (1, fs'))"
    if ret: "process_variants lib variants task_replies order t0 = Some (Inr rs)" for rs
    using process_variants_results[OF ret] by (simp add: main_def ret)
  show ?thesis
    using frame sink by blast
qed

text \<open>Scenario A through the whole program: the row written is the annotated record.\<close>

theorem only_annotation_fields_witness:
  "fst (update_variant_info scenario_lib record_a
          [Reply 200 None (Some (PList [PDict response_a]))] (start_world default_client 1000)) =
     Some (Inr annotated_a)
   \<and> map (map_of annotated_a) [''chrom'', ''pos'', ''ref'', ''alt'', ''hgvs''] =
     map (map_of record_a) [''chrom'', ''pos'', ''ref'', ''alt'', ''hgvs'']
   \<and> process_variants scenario_lib [record_a]
        (\<lambda>i. [Reply 200 None (Some (PList [PDict response_a]))]) [0] 1000 = Some (Inr [annotated_a])
   \<and> main scenario_lib (Inr [record_a])
        (\<lambda>i. [Reply 200 None (Some (PList [PDict response_a]))]) [0] 1000 ''out.tsv'' empty_disk =
      Some (0, empty_disk\<lparr>files := (files empty_disk)(''out.tsv'' :=
         Some (map fst annotated_a, [map snd annotated_a]))\<rparr>)"
proof -
  have a: "fst (update_variant_info scenario_lib record_a
          [Reply 200 None (Some (PList [PDict response_a]))] (start_world default_client 1000)) =
     Some (Inr annotated_a)"
    by (simp add: update_variant_info_def record_a_def response_a_def annotated_a_def
        merge_annotation_def extracted_fields_def extract_consequences_def extract_maf_def
        and_then_def dict_update_def seq_index_def scenario_lib_def Let_def)
  have p: "process_variants scenario_lib [record_a]
        (\<lambda>i. [Reply 200 None (Some (PList [PDict response_a]))]) [0] 1000 = Some (Inr [annotated_a])"
    by (simp add: process_variants_def task_outcome_def a)
  have w: "write_to_tsv [annotated_a] ''out.tsv'' empty_disk =
      (None, empty_disk\<lparr>files := (files empty_disk)(''out.tsv'' :=
         Some (map fst annotated_a, [map snd annotated_a]))\<rparr>)"
    by (simp add: write_to_tsv_def empty_disk_def dict_to_list_def annotated_a_def record_a_def)
  from only_annotation_fields_change
    [of scenario_lib record_a "[Reply 200 None (Some (PList [PDict response_a]))]"
        "start_world default_client 1000" "[record_a]"
        "\<lambda>i. [Reply 200 None (Some (PList [PDict response_a]))]" "[0]" 1000 "''out.tsv''" empty_disk]
  show ?thesis
    using a p w by (simp add: annotated_a_def record_a_def)
qed

subsection \<open>C9: the empty input\<close>

text \<open>
  C9 (empty input). With no record, \<^verbatim>\<open>process_variants\<close> returns the empty list,
  \<^verbatim>\<open>write_to_tsv\<close> raises nothing and leaves the disk as it is, and the program ends with exit
  status 0.
\<close>

theorem empty_input_writes_nothing:
  "process_variants lib [] replies [] t0 = Some (Inr [])
   \<and> write_to_tsv [] output_tsv fs = (None, fs)
   \<and> main lib (Inr []) replies [] t0 output_tsv fs = Some (0, fs)"
  by (simp add: process_variants_def write_to_tsv_def main_def)

subsection \<open>C10: throttled without a delay\<close>

text \<open>
  C10 (429 without Retry-After). A request answered with status 429 and no \<^verbatim>\<open>Retry-After\<close>
  header is not retried: \<^verbatim>\<open>perform_rest_action\<close> returns the empty dict, having done nothing
  but pass the rate limiter and send the one request (no sleep for the throttling, the
  replies that follow are not asked for), and the record comes back with the six annotation
  fields null.
\<close>

theorem throttled_without_retry_after_is_dropped:
  assumes "map_of variant ''hgvs'' = Some h"
  shows "perform_rest_action lib endpoint params (Reply 429 None body # rs) w =
           (Some (Inr (PDict [])),
            send_request (request_url lib (server (api w)) endpoint params) (apply_rate_limit w))
       \<and> update_variant_info lib variant (Reply 429 None body # rs) w =
           (Some (Inr (dict_update variant null_annotation)),
            send_request
              (request_url lib (server (api w)) (''/vep/human/hgvs/'' @ py_str lib h)
                 (Some [(''pick'', PInt 1)]))
              (apply_rate_limit w))
       \<and> map (map_of (dict_update variant null_annotation)) annotation_fields =
           replicate 6 (Some PNone)"
  using assms
  by (simp add: update_variant_info_def merge_annotation_def extracted_fields_empty and_then_def
      null_annotation_lookup)

text \<open>Scenario A's record, throttled without a delay: one request at time 1000, no sleep.\<close>

theorem throttled_without_retry_after_witness:
  "map_of record_a ''hgvs'' = Some (PStr ''1:g.100A>T'')
   \<and> update_variant_info scenario_lib record_a
        [Reply 429 None None, Reply 200 None (Some (PList [PDict response_a]))]
        (start_world default_client 1000) =
      (Some (Inr (record_a @ null_annotation)),
       \<lparr>api = default_client\<lparr>req_count := 1\<rparr>, clock = 1000,
        trace = [Admitted 1000,
                 Sent 1000 ''https://grch37.rest.ensembl.org/vep/human/hgvs/1:g.100A>T?pick=1'']\<rparr>)"
  using throttled_without_retry_after_is_dropped
    [of record_a "PStr ''1:g.100A>T''" scenario_lib "''x''" None None
        "[Reply 200 None (Some (PList [PDict response_a]))]" "start_world default_client 1000"]
  by (simp add: record_a_def null_annotation_def annotation_fields_def dict_update_def
      scenario_lib_def start_world_def default_client_def init_client_def apply_rate_limit_def
      send_request_def request_url_def Let_def)

end
